theory Spec2Isabelle
  imports Main "HOL-Library.AList" "HOL-Library.Char_ord" "HOL-Library.List_Lexorder"
begin

section \<open>RDF terms, quads and the pattern-matching dataset\<close>

text \<open>
  The browsers read two things of an RDF/JS term: its \<open>termType\<close> and its \<open>value\<close>.
  A literal also carries a language tag or datatype, which the browsers never read; it
  is kept here because two literals with the same lexical value and different tags are
  different terms of a dataset.
\<close>

datatype Term = NamedNode string | BlankNode string | Literal string string

fun termType :: "Term \<Rightarrow> string" where
  "termType (NamedNode v) = ''NamedNode''"
| "termType (BlankNode v) = ''BlankNode''"
| "termType (Literal v tag) = ''Literal''"

fun termValue :: "Term \<Rightarrow> string" where
  "termValue (NamedNode v) = v"
| "termValue (BlankNode v) = v"
| "termValue (Literal v tag) = v"

datatype Quad = Quad (q_subject: Term) (q_predicate: Term) (q_object: Term)

text \<open>
  What \<open>for (const quad of dataset.match(...))\<close> can observe: the iteration ends, yields
  a quad and goes on, or throws (at the call or at any later step).
\<close>

datatype 'a iteration = Done | Yield 'a "'a iteration" | Throw string

type_synonym Dataset = "Term option \<Rightarrow> Term option \<Rightarrow> Term option \<Rightarrow> Quad iteration"

fun iterate :: "'a list \<Rightarrow> 'a iteration" where
  "iterate [] = Done"
| "iterate (x # xs) = Yield x (iterate xs)"

text \<open>
  Modelled from the spec: the triple source contract of section 6 (the dataset is an
  external library, \<open>@graviola/hdt-rdfjs-dataset\<close>): \<open>match(subject|null, predicate|null,
  object|null)\<close> yields the triples of the source whose terms equal the given ones, a
  \<open>null\<close> matching every term.
\<close>

definition matchesTerm :: "Term option \<Rightarrow> Term \<Rightarrow> bool" where
  "matchesTerm pat t = (case pat of None \<Rightarrow> True | Some u \<Rightarrow> u = t)"

definition matchesPattern :: "Term option \<Rightarrow> Term option \<Rightarrow> Term option \<Rightarrow> Quad \<Rightarrow> bool" where
  "matchesPattern s p ob q =
     (matchesTerm s (q_subject q) \<and> matchesTerm p (q_predicate q) \<and> matchesTerm ob (q_object q))"

definition tripleSource :: "Quad list \<Rightarrow> Dataset" where
  "tripleSource qs s p ob = iterate (filter (matchesPattern s p ob) qs)"

text \<open>
  The exception a loop meets that runs an iteration to its end, and the one a loop
  meets that takes at most \<open>n\<close> quads and leaves at the next one.
\<close>

fun thrown :: "'a iteration \<Rightarrow> string option" where
  "thrown Done = None"
| "thrown (Throw e) = Some e"
| "thrown (Yield x it) = thrown it"

fun thrownWithin :: "nat \<Rightarrow> 'a iteration \<Rightarrow> string option" where
  "thrownWithin n Done = None"
| "thrownWithin n (Throw e) = Some e"
| "thrownWithin n (Yield x it) = (case n of 0 \<Rightarrow> None | Suc m \<Rightarrow> thrownWithin m it)"

text \<open>An iteration that yields the quads of a list and then throws.\<close>

fun iterateThenThrow :: "'a list \<Rightarrow> string \<Rightarrow> 'a iteration" where
  "iterateThenThrow [] e = Throw e"
| "iterateThenThrow (x # xs) e = Yield x (iterateThenThrow xs e)"

section \<open>The general browser: node data and node identity\<close>

text \<open>
  The component \<open>GraphBrowser\<close>: its types \<open>NodeType\<close> and \<open>NodeData\<close>, its state \<open>nodes\<close> and
  the callback \<open>getNodeId\<close>.
\<close>

type_synonym NodeId = string

datatype NodeType = TRoot | TIn | TOut | TPredicate | TObject

fun typeName :: "NodeType \<Rightarrow> string" where
  "typeName TRoot = ''root''"
| "typeName TIn = ''in''"
| "typeName TOut = ''out''"
| "typeName TPredicate = ''predicate''"
| "typeName TObject = ''object''"

datatype Direction = DirIn | DirOut

record ObjectInfo =
  oi_value :: string
  oi_isLiteral :: bool

text \<open>An optional property that is absent or \<open>undefined\<close> is \<open>None\<close>.\<close>

record NodeData =
  ntype :: NodeType
  iri :: string
  predicate :: "string option"
  loaded :: bool
  children :: "NodeId list option"
  parentType :: "Direction option"
  isLiteral :: "bool option"
  literalValue :: "string option"
  objectInfo :: "ObjectInfo list option"
  singleLiteralValue :: "string option"
  parentNodeId :: "NodeId option"

text \<open>
  The node map is a JavaScript \<open>Map\<close>: keys in insertion order, \<open>set\<close> on a present key
  replaces the value in place (\<open>AList.update\<close>), \<open>get\<close> is \<open>map_of\<close>.
\<close>

type_synonym NodeMap = "(NodeId \<times> NodeData) list"

definition has :: "('k \<times> 'v) list \<Rightarrow> 'k \<Rightarrow> bool" where
  "has m k = (map_of m k \<noteq> None)"

text \<open>
  \<open>getNodeId\<close>: \<open>if (predicate)\<close> and \<open>parentNodeId ? ... : ...\<close> test truthiness, so an
  empty string counts as absent.
\<close>

definition getNodeId :: "NodeType \<Rightarrow> string \<Rightarrow> string option \<Rightarrow> NodeId option \<Rightarrow> NodeId" where
  "getNodeId t i p parent =
     (let baseId = (case p of
                      Some pr \<Rightarrow> if pr \<noteq> [] then typeName t @ '':'' @ i @ '':'' @ pr
                                 else typeName t @ '':'' @ i
                    | None \<Rightarrow> typeName t @ '':'' @ i)
      in case parent of
           Some pid \<Rightarrow> if pid \<noteq> [] then pid @ ''->'' @ baseId else baseId
         | None \<Rightarrow> baseId)"

section \<open>The general browser: queries\<close>

text \<open>
  The callbacks \<open>loadOutgoingPredicates\<close>, \<open>loadIncomingPredicates\<close>, \<open>loadObjects\<close> and
  \<open>loadSubjects\<close> of \<open>GraphBrowser\<close>. Each returns the empty list when there is no dataset,
  and an exception of \<open>dataset.match\<close> or of its iteration leaves the callback (\<open>Inl\<close>).
\<close>

text \<open>\<open>predicates.add(quad.predicate.value)\<close> on a \<open>Set\<close>: first occurrence, insertion order.\<close>

fun collectPredicates :: "Quad iteration \<Rightarrow> string list \<Rightarrow> string + string list" where
  "collectPredicates Done acc = Inr acc"
| "collectPredicates (Throw e) acc = Inl e"
| "collectPredicates (Yield q it) acc =
     collectPredicates it
       (if termValue (q_predicate q) \<in> set acc then acc else acc @ [termValue (q_predicate q)])"

text \<open>\<open>Array.prototype.sort()\<close> without a comparator orders strings by their code units.\<close>

definition loadOutgoingPredicates :: "Dataset option \<Rightarrow> string \<Rightarrow> string + string list" where
  "loadOutgoingPredicates dataset i =
     (case dataset of
        None \<Rightarrow> Inr []
      | Some ds \<Rightarrow>
          (case collectPredicates (ds (Some (NamedNode i)) None None) [] of
             Inl e \<Rightarrow> Inl e
           | Inr ps \<Rightarrow> Inr (sort ps)))"

definition loadIncomingPredicates :: "Dataset option \<Rightarrow> string \<Rightarrow> string + string list" where
  "loadIncomingPredicates dataset i =
     (case dataset of
        None \<Rightarrow> Inr []
      | Some ds \<Rightarrow>
          (case collectPredicates (ds None None (Some (NamedNode i))) [] of
             Inl e \<Rightarrow> Inl e
           | Inr ps \<Rightarrow> Inr (sort ps)))"

text \<open>
  The loop of \<open>loadObjects\<close>: the iterator is advanced first (and may throw), then the
  body tests \<open>count >= limit\<close>; \<open>count\<close> grows for every quad, retained or not.
\<close>

fun objectsLoop :: "Quad iteration \<Rightarrow> nat \<Rightarrow> nat \<Rightarrow> ObjectInfo list \<Rightarrow> string + ObjectInfo list" where
  "objectsLoop Done limit count objects = Inr objects"
| "objectsLoop (Throw e) limit count objects = Inl e"
| "objectsLoop (Yield q it) limit count objects =
     (if count \<ge> limit then Inr objects
      else objectsLoop it limit (count + 1)
             (if termType (q_object q) = ''NamedNode'' \<or> termType (q_object q) = ''Literal''
              then objects @ [\<lparr>oi_value = termValue (q_object q),
                               oi_isLiteral = (termType (q_object q) = ''Literal'')\<rparr>]
              else objects))"

definition loadObjects :: "Dataset option \<Rightarrow> string \<Rightarrow> string \<Rightarrow> nat \<Rightarrow> string + ObjectInfo list" where
  "loadObjects dataset subjectIri predicateIri limit =
     (case dataset of
        None \<Rightarrow> Inr []
      | Some ds \<Rightarrow>
          objectsLoop (ds (Some (NamedNode subjectIri)) (Some (NamedNode predicateIri)) None)
            limit 0 [])"

fun subjectsLoop :: "Quad iteration \<Rightarrow> nat \<Rightarrow> nat \<Rightarrow> string list \<Rightarrow> string + string list" where
  "subjectsLoop Done limit count subjects = Inr subjects"
| "subjectsLoop (Throw e) limit count subjects = Inl e"
| "subjectsLoop (Yield q it) limit count subjects =
     (if count \<ge> limit then Inr subjects
      else subjectsLoop it limit (count + 1)
             (if termType (q_subject q) = ''NamedNode''
              then subjects @ [termValue (q_subject q)]
              else subjects))"

definition loadSubjects :: "Dataset option \<Rightarrow> string \<Rightarrow> string \<Rightarrow> nat \<Rightarrow> string + string list" where
  "loadSubjects dataset objectIri predicateIri limit =
     (case dataset of
        None \<Rightarrow> Inr []
      | Some ds \<Rightarrow>
          subjectsLoop (ds None (Some (NamedNode predicateIri)) (Some (NamedNode objectIri)))
            limit 0 [])"

text \<open>The default value of the \<open>limit\<close> parameter, which every call in the browser uses.\<close>

definition defaultLimit :: nat where
  "defaultLimit = 100"

section \<open>The general browser: expanding a node\<close>

text \<open>
  The callback \<open>loadNodeChildren\<close> of \<open>GraphBrowser\<close>, branch by branch, and the part of
  \<open>buildTreeItem\<close> that decides whether a tree item can be expanded.
\<close>

text \<open>A node as the browser first creates it: every optional property absent.\<close>

definition newNode :: "NodeType \<Rightarrow> string \<Rightarrow> NodeData" where
  "newNode t i =
     \<lparr>ntype = t, iri = i, predicate = None, loaded = False, children = None,
      parentType = None, isLiteral = None, literalValue = None, objectInfo = None,
      singleLiteralValue = None, parentNodeId = None\<rparr>"

text \<open>The loop over the sorted predicates of an \<open>out\<close> or \<open>in\<close> node.\<close>

fun addPredicates ::
  "string list \<Rightarrow> Direction \<Rightarrow> string \<Rightarrow> NodeId \<Rightarrow> NodeMap \<times> NodeId list \<Rightarrow> NodeMap \<times> NodeId list" where
  "addPredicates [] dir i nodeId (newNodes, chs) = (newNodes, chs)"
| "addPredicates (p # ps) dir i nodeId (newNodes, chs) =
     (let predicateNodeId = getNodeId TPredicate i (Some p) (Some nodeId)
      in addPredicates ps dir i nodeId
           (AList.update predicateNodeId
              ((newNode TPredicate i)
                 \<lparr>predicate := Some p, parentType := Some dir, parentNodeId := Some nodeId\<rparr>)
              newNodes,
            chs @ [predicateNodeId]))"

text \<open>
  The three loops that create value nodes (literals only, mixed objects, subjects) have
  one shape: the id comes from the value, the record is set only when the id is not yet
  in \<open>newNodes\<close>, and the id is pushed to \<open>children\<close> in every round. \<open>val\<close> reads the
  value and \<open>mk\<close> builds the record of the loop at hand.
\<close>

fun addValueNodes ::
  "('a \<Rightarrow> string) \<Rightarrow> ('a \<Rightarrow> NodeData) \<Rightarrow> 'a list \<Rightarrow> NodeId \<Rightarrow> NodeMap \<times> NodeId list
     \<Rightarrow> NodeMap \<times> NodeId list" where
  "addValueNodes val mk [] nodeId (newNodes, chs) = (newNodes, chs)"
| "addValueNodes val mk (obj # objs) nodeId (newNodes, chs) =
     (let objectNodeId = getNodeId TObject (val obj) None (Some nodeId)
      in addValueNodes val mk objs nodeId
           (if \<not> has newNodes objectNodeId then AList.update objectNodeId (mk obj) newNodes
            else newNodes,
            chs @ [objectNodeId]))"

definition literalObjectNode :: "NodeId \<Rightarrow> ObjectInfo \<Rightarrow> NodeData" where
  "literalObjectNode nodeId obj =
     (newNode TObject (oi_value obj))
       \<lparr>isLiteral := Some True, literalValue := Some (oi_value obj), parentNodeId := Some nodeId\<rparr>"

definition mixedObjectNode :: "NodeId \<Rightarrow> ObjectInfo \<Rightarrow> NodeData" where
  "mixedObjectNode nodeId obj =
     (newNode TObject (oi_value obj))
       \<lparr>isLiteral := Some (oi_isLiteral obj),
        literalValue := (if oi_isLiteral obj then Some (oi_value obj) else None),
        parentNodeId := Some nodeId\<rparr>"

definition subjectNode :: "NodeId \<Rightarrow> string \<Rightarrow> NodeData" where
  "subjectNode nodeId subjectIri =
     (newNode TObject subjectIri)\<lparr>isLiteral := Some False, parentNodeId := Some nodeId\<rparr>"

text \<open>The \<open>in\<close> and \<open>out\<close> children of a root and of a non-literal object node.\<close>

definition directionNode :: "NodeType \<Rightarrow> string \<Rightarrow> NodeId \<Rightarrow> NodeData" where
  "directionNode t i nodeId = (newNode t i)\<lparr>parentNodeId := Some nodeId\<rparr>"

text \<open>
  The out-going branch of a predicate node, after \<open>loadObjects\<close> has returned: the
  collapse of a single literal, the two loops, and the record of \<open>objectInfo\<close>.
\<close>

definition resolveObjects :: "NodeData \<Rightarrow> NodeId \<Rightarrow> ObjectInfo list \<Rightarrow> NodeMap \<times> NodeId list" where
  "resolveObjects node nodeId objects =
     (let allLiterals = list_all oi_isLiteral objects;
          (newNodes, chs) =
            (if allLiterals \<and> length objects = 1 then
               (AList.update nodeId
                  (node\<lparr>loaded := True, singleLiteralValue := Some (oi_value (objects ! 0)),
                        objectInfo := Some objects, children := Some []\<rparr>) [],
                [])
             else if allLiterals \<and> length objects > 1 then
               addValueNodes oi_value (literalObjectNode nodeId) objects nodeId ([], [])
             else
               addValueNodes oi_value (mixedObjectNode nodeId) objects nodeId ([], []))
      in (if (case map_of newNodes nodeId of
                None \<Rightarrow> True
              | Some n \<Rightarrow> singleLiteralValue n = None)
          then AList.update nodeId (node\<lparr>objectInfo := Some objects\<rparr>) newNodes
          else newNodes,
          chs))"

text \<open>
  The body of the \<open>try\<close> block up to the call of \<open>setNodes\<close>: the new records and the
  children of the node, or the exception of a query.
\<close>

definition resolveChildren ::
  "Dataset option \<Rightarrow> NodeData \<Rightarrow> NodeId \<Rightarrow> string + (NodeMap \<times> NodeId list)" where
  "resolveChildren dataset node nodeId =
     (case ntype node of
        TRoot \<Rightarrow>
          (let inNodeId = getNodeId TIn (iri node) None (Some nodeId);
               outNodeId = getNodeId TOut (iri node) None (Some nodeId)
           in Inr (AList.update outNodeId (directionNode TOut (iri node) nodeId)
                     (AList.update inNodeId (directionNode TIn (iri node) nodeId) []),
                   [inNodeId, outNodeId]))
      | TOut \<Rightarrow>
          (case loadOutgoingPredicates dataset (iri node) of
             Inl e \<Rightarrow> Inl e
           | Inr predicates \<Rightarrow> Inr (addPredicates predicates DirOut (iri node) nodeId ([], [])))
      | TIn \<Rightarrow>
          (case loadIncomingPredicates dataset (iri node) of
             Inl e \<Rightarrow> Inl e
           | Inr predicates \<Rightarrow> Inr (addPredicates predicates DirIn (iri node) nodeId ([], [])))
      | TPredicate \<Rightarrow>
          (case predicate node of
             None \<Rightarrow> Inr ([], [])
           | Some p \<Rightarrow>
               if iri node \<noteq> [] \<and> p \<noteq> [] then
                 (if parentType node = Some DirOut then
                    (case loadObjects dataset (iri node) p defaultLimit of
                       Inl e \<Rightarrow> Inl e
                     | Inr objects \<Rightarrow> Inr (resolveObjects node nodeId objects))
                  else
                    (case loadSubjects dataset (iri node) p defaultLimit of
                       Inl e \<Rightarrow> Inl e
                     | Inr subjects \<Rightarrow>
                         Inr (addValueNodes id (subjectNode nodeId) subjects nodeId ([], []))))
               else Inr ([], []))
      | TObject \<Rightarrow>
          (if isLiteral node = Some True then
             Inr (AList.update nodeId (node\<lparr>loaded := True, children := Some []\<rparr>) [], [])
           else
             (let inNodeId = getNodeId TIn (iri node) None (Some nodeId);
                  outNodeId = getNodeId TOut (iri node) None (Some nodeId);
                  emptyNodes = ([] :: NodeMap);
                  withIn = (if \<not> has emptyNodes inNodeId
                            then AList.update inNodeId (directionNode TIn (iri node) nodeId) emptyNodes
                            else emptyNodes);
                  withOut = (if \<not> has withIn outNodeId
                             then AList.update outNodeId (directionNode TOut (iri node) nodeId) withIn
                             else withIn)
              in Inr (withOut, [inNodeId, outNodeId]))))"

text \<open>
  The updater given to \<open>setNodes\<close>: it runs on the node map of the moment of the
  write-back, \<open>prevNodes\<close>, which is the map the expansion started from only when
  nothing else was written in between.
\<close>

definition writeBack :: "NodeMap \<Rightarrow> NodeId list \<Rightarrow> NodeId \<Rightarrow> NodeMap \<Rightarrow> NodeMap" where
  "writeBack newNodes chs nodeId prevNodes =
     (let updatedNodes = fold (\<lambda>(childId, childNode) m. AList.update childId childNode m)
                           newNodes prevNodes
      in case map_of updatedNodes nodeId of
           None \<Rightarrow> updatedNodes
         | Some updatedNode \<Rightarrow>
             if singleLiteralValue updatedNode = None
             then AList.update nodeId (updatedNode\<lparr>loaded := True, children := Some chs\<rparr>)
                    updatedNodes
             else updatedNodes)"

text \<open>
  What one call of \<open>loadNodeChildren\<close> reports on the console: the node is unknown, it
  is loaded already, its children were loaded (with their number), or a query threw.
\<close>

datatype Outcome = NodeNotFound | AlreadyLoaded | SuccessfullyLoaded nat | LoadError string

text \<open>
  The first half of \<open>loadNodeChildren\<close> reads the node map of the render it was created
  in and runs the queries; the second half is the write-back.
\<close>

datatype Expansion = Skipped Outcome | Failed string | Commit NodeMap "NodeId list"

definition startExpansion :: "Dataset option \<Rightarrow> NodeMap \<Rightarrow> NodeId \<Rightarrow> Expansion" where
  "startExpansion dataset nodes nodeId =
     (case map_of nodes nodeId of
        None \<Rightarrow> Skipped NodeNotFound
      | Some node \<Rightarrow>
          if loaded node then Skipped AlreadyLoaded
          else (case resolveChildren dataset node nodeId of
                  Inl e \<Rightarrow> Failed e
                | Inr (newNodes, chs) \<Rightarrow> Commit newNodes chs))"

definition finishExpansion :: "Expansion \<Rightarrow> NodeId \<Rightarrow> NodeMap \<Rightarrow> Outcome \<times> NodeMap" where
  "finishExpansion ex nodeId prevNodes =
     (case ex of
        Skipped out \<Rightarrow> (out, prevNodes)
      | Failed e \<Rightarrow> (LoadError e, prevNodes)
      | Commit newNodes chs \<Rightarrow>
          (SuccessfullyLoaded (length chs), writeBack newNodes chs nodeId prevNodes))"

text \<open>An expansion with nothing in between: the map read is the map written.\<close>

definition loadNodeChildren :: "Dataset option \<Rightarrow> NodeMap \<Rightarrow> NodeId \<Rightarrow> Outcome \<times> NodeMap" where
  "loadNodeChildren dataset nodes nodeId =
     finishExpansion (startExpansion dataset nodes nodeId) nodeId nodes"

text \<open>The node map that \<open>handleLoadRoot\<close> sets for a submitted root IRI.\<close>

definition rootNodes :: "string \<Rightarrow> NodeMap" where
  "rootNodes rootIri = AList.update (getNodeId TRoot rootIri None None) (newNode TRoot rootIri) []"




section \<open>Specialized traversal\<close>

text \<open>
  The component \<open>SpecializedGraphBrowser\<close>: \<open>loadLabel\<close>, \<open>loadChildren\<close>, \<open>loadParents\<close> and
  \<open>loadNode\<close> with its updaters. It is given a predicate and a direction.
\<close>

record SpecializedNode =
  sn_iri :: string
  sn_label :: "string option"
  sn_loaded :: bool
  sn_children :: "string list option"

text \<open>The node map of the specialized browser is keyed by the IRI itself.\<close>

type_synonym SpecializedMap = "(string \<times> SpecializedNode) list"

definition rdfsLabel :: string where
  "rdfsLabel = ''http://www.w3.org/2000/01/rdf-schema#label''"

fun firstLiteral :: "Quad iteration \<Rightarrow> string + string option" where
  "firstLiteral Done = Inr None"
| "firstLiteral (Throw e) = Inl e"
| "firstLiteral (Yield q it) =
     (if termType (q_object q) = ''Literal'' then Inr (Some (termValue (q_object q)))
      else firstLiteral it)"

definition loadLabel :: "Dataset option \<Rightarrow> string \<Rightarrow> string + string option" where
  "loadLabel dataset i =
     (case dataset of
        None \<Rightarrow> Inr None
      | Some ds \<Rightarrow> firstLiteral (ds (Some (NamedNode i)) (Some (NamedNode rdfsLabel)) None))"

fun namedObjects :: "Quad iteration \<Rightarrow> string list \<Rightarrow> string + string list" where
  "namedObjects Done chs = Inr chs"
| "namedObjects (Throw e) chs = Inl e"
| "namedObjects (Yield q it) chs =
     namedObjects it
       (if termType (q_object q) = ''NamedNode'' then chs @ [termValue (q_object q)] else chs)"

definition loadChildren :: "Dataset option \<Rightarrow> string \<Rightarrow> string \<Rightarrow> string + string list" where
  "loadChildren dataset predicateIri i =
     (case dataset of
        None \<Rightarrow> Inr []
      | Some ds \<Rightarrow>
          namedObjects (ds (Some (NamedNode i)) (Some (NamedNode predicateIri)) None) [])"

fun namedSubjects :: "Quad iteration \<Rightarrow> string list \<Rightarrow> string + string list" where
  "namedSubjects Done parents = Inr parents"
| "namedSubjects (Throw e) parents = Inl e"
| "namedSubjects (Yield q it) parents =
     namedSubjects it
       (if termType (q_subject q) = ''NamedNode'' then parents @ [termValue (q_subject q)]
        else parents)"

definition loadParents :: "Dataset option \<Rightarrow> string \<Rightarrow> string \<Rightarrow> string + string list" where
  "loadParents dataset predicateIri i =
     (case dataset of
        None \<Rightarrow> Inr []
      | Some ds \<Rightarrow>
          namedSubjects (ds None (Some (NamedNode predicateIri)) (Some (NamedNode i))) [])"

text \<open>
  The second updater of \<open>loadNode\<close>: it looks at the record of the moment of the
  write-back and leaves the map alone when that record is loaded.
\<close>

definition specializedWriteBack ::
  "string \<Rightarrow> string option \<Rightarrow> string list \<Rightarrow> SpecializedMap \<Rightarrow> SpecializedMap" where
  "specializedWriteBack i lbl relatedNodes prevNodes =
     (case map_of prevNodes i of
        Some existing \<Rightarrow>
          if sn_loaded existing then prevNodes
          else AList.update i
                 \<lparr>sn_iri = i, sn_label = lbl, sn_loaded = True, sn_children = Some relatedNodes\<rparr>
                 prevNodes
      | None \<Rightarrow>
          AList.update i
            \<lparr>sn_iri = i, sn_label = lbl, sn_loaded = True, sn_children = Some relatedNodes\<rparr>
            prevNodes)"

text \<open>\<open>Promise.all\<close> over the label lookups of the children: one rejection rejects all.\<close>

fun loadLabels :: "Dataset option \<Rightarrow> string list \<Rightarrow> string + string option list" where
  "loadLabels dataset [] = Inr []"
| "loadLabels dataset (c # cs) =
     (case loadLabel dataset c of
        Inl e \<Rightarrow> Inl e
      | Inr l \<Rightarrow> (case loadLabels dataset cs of Inl e \<Rightarrow> Inl e | Inr ls \<Rightarrow> Inr (l # ls)))"

text \<open>The updater that merges the labels of the children, \<open>labels[index]\<close> for \<open>relatedNodes[index]\<close>.\<close>

fun mergeChildLabels :: "(string \<times> string option) list \<Rightarrow> SpecializedMap \<Rightarrow> SpecializedMap" where
  "mergeChildLabels [] updatedNodes = updatedNodes"
| "mergeChildLabels ((childIri, lbl) # rest) updatedNodes =
     mergeChildLabels rest
       (case map_of updatedNodes childIri of
          Some existing \<Rightarrow> AList.update childIri (existing\<lparr>sn_label := lbl\<rparr>) updatedNodes
        | None \<Rightarrow>
            AList.update childIri
              \<lparr>sn_iri = childIri, sn_label = lbl, sn_loaded = False, sn_children = None\<rparr>
              updatedNodes)"

text \<open>
  \<open>loadNode\<close> with nothing in between its steps. The first \<open>setNodes\<close> returns
  \<open>prevNodes\<close> on both branches. The labels of the children are looked up only when the
  record was written, and a failed lookup is logged and merges nothing.
\<close>

definition loadNode ::
  "Dataset option \<Rightarrow> string \<Rightarrow> Direction \<Rightarrow> SpecializedMap \<Rightarrow> string \<Rightarrow> SpecializedMap" where
  "loadNode dataset predicateIri direction nodes i =
     (case dataset of
        None \<Rightarrow> nodes
      | Some ds \<Rightarrow>
          (case loadLabel dataset i of
             Inl e \<Rightarrow> nodes
           | Inr lbl \<Rightarrow>
               (case (if direction = DirOut then loadChildren dataset predicateIri i
                      else loadParents dataset predicateIri i) of
                  Inl e \<Rightarrow> nodes
                | Inr relatedNodes \<Rightarrow>
                    (if (case map_of nodes i of Some existing \<Rightarrow> sn_loaded existing | None \<Rightarrow> False)
                     then specializedWriteBack i lbl relatedNodes nodes
                     else
                       (let newNodes = specializedWriteBack i lbl relatedNodes nodes
                        in if length relatedNodes > 0 then
                             (case loadLabels dataset relatedNodes of
                                Inl e \<Rightarrow> newNodes
                              | Inr labels \<Rightarrow> mergeChildLabels (zip relatedNodes labels) newNodes)
                           else newNodes)))))"

text \<open>The start of a traversal: the map holds the start node alone, not yet loaded.\<close>

definition startNodes :: "string \<Rightarrow> SpecializedMap" where
  "startNodes startNodeIri =
     [(startNodeIri,
       \<lparr>sn_iri = startNodeIri, sn_label = None, sn_loaded = False, sn_children = None\<rparr>)]"

section \<open>The bookmark store\<close>

text \<open>
  The store of \<open>bookmarkStore.ts\<close>: its state, the merge that \<open>set\<close> performs, and the
  actions \<open>setLastFocusedInputId\<close> and \<open>fillFocusedInput\<close>.
\<close>

record Bookmark =
  b_iri :: string
  b_label :: "string option"
  b_description :: "string option"
  b_hint :: "string option"
  b_addedAt :: nat

record BookmarkStore =
  bookmarks :: "Bookmark list"
  fieldStates :: "string \<rightharpoonup> string"
  lastFocusedInputId :: "string option"

text \<open>
  What an updater hands to the store's \<open>set\<close>: some of the properties; \<open>set\<close> merges
  them into the state and keeps the others.
\<close>

record StorePatch =
  p_bookmarks :: "Bookmark list option"
  p_fieldStates :: "(string \<rightharpoonup> string) option"
  p_lastFocusedInputId :: "string option option"

definition setState :: "(BookmarkStore \<Rightarrow> StorePatch) \<Rightarrow> BookmarkStore \<Rightarrow> BookmarkStore" where
  "setState updater state =
     (let patch = updater state
      in \<lparr>bookmarks = (case p_bookmarks patch of None \<Rightarrow> bookmarks state | Some b \<Rightarrow> b),
          fieldStates = (case p_fieldStates patch of None \<Rightarrow> fieldStates state | Some f \<Rightarrow> f),
          lastFocusedInputId =
            (case p_lastFocusedInputId patch of None \<Rightarrow> lastFocusedInputId state | Some l \<Rightarrow> l)\<rparr>)"

text \<open>An updater that returns \<open>state\<close> itself hands back every property.\<close>

definition wholeState :: "BookmarkStore \<Rightarrow> StorePatch" where
  "wholeState state =
     \<lparr>p_bookmarks = Some (bookmarks state), p_fieldStates = Some (fieldStates state),
      p_lastFocusedInputId = Some (lastFocusedInputId state)\<rparr>"

definition initialStore :: BookmarkStore where
  "initialStore = \<lparr>bookmarks = [], fieldStates = Map.empty, lastFocusedInputId = None\<rparr>"

definition setLastFocusedInputId :: "string option \<Rightarrow> BookmarkStore \<Rightarrow> BookmarkStore" where
  "setLastFocusedInputId inputId =
     setState (\<lambda>state. \<lparr>p_bookmarks = None, p_fieldStates = None,
                         p_lastFocusedInputId = Some inputId\<rparr>)"

text \<open>\<open>if (state.lastFocusedInputId)\<close> tests truthiness: \<open>null\<close> and the empty string fail it.\<close>

definition fillFocusedInput :: "string \<Rightarrow> BookmarkStore \<Rightarrow> BookmarkStore" where
  "fillFocusedInput i =
     setState (\<lambda>state.
       case lastFocusedInputId state of
         Some inputId \<Rightarrow>
           if inputId \<noteq> [] then
             \<lparr>p_bookmarks = None,
              p_fieldStates = Some ((fieldStates state)(inputId \<mapsto> i)),
              p_lastFocusedInputId = None\<rparr>
           else wholeState state
       | None \<Rightarrow> wholeState state)"

section \<open>Reachable node maps of a specialized traversal\<close>

text \<open>
  The node map of a traversal changes by the two updaters alone, run in any order and
  with the results of any queries: the write-back of a node and the merge of the labels
  of its children.
\<close>

inductive_set reachableNodes :: "string \<Rightarrow> SpecializedMap set" for startNodeIri :: string where
  start: "startNodes startNodeIri \<in> reachableNodes startNodeIri"
| writeBack: "nodes \<in> reachableNodes startNodeIri \<Longrightarrow>
     specializedWriteBack i lbl relatedNodes nodes \<in> reachableNodes startNodeIri"
| labels: "nodes \<in> reachableNodes startNodeIri \<Longrightarrow>
     mergeChildLabels pairs nodes \<in> reachableNodes startNodeIri"

section \<open>A small dataset\<close>

text \<open>
  Eight triples around \<open>ex:a\<close>: a predicate with one literal, one with two literals, one
  with two literals of the same lexical value, one with two resources, and an incoming
  edge. No triple mentions \<open>ex:z\<close>.
\<close>

definition exampleQuads :: "Quad list" where
  "exampleQuads =
     [Quad (NamedNode ''ex:a'') (NamedNode ''ex:knows'') (NamedNode ''ex:b''),
      Quad (NamedNode ''ex:a'') (NamedNode rdfsLabel) (Literal ''Alice'' ''en''),
      Quad (NamedNode ''ex:a'') (NamedNode ''ex:knows'') (NamedNode ''ex:c''),
      Quad (NamedNode ''ex:a'') (NamedNode ''ex:name'') (Literal ''Al'' ''en''),
      Quad (NamedNode ''ex:a'') (NamedNode ''ex:name'') (Literal ''Alice'' ''en''),
      Quad (NamedNode ''ex:a'') (NamedNode ''ex:city'') (Literal ''Paris'' ''en''),
      Quad (NamedNode ''ex:a'') (NamedNode ''ex:city'') (Literal ''Paris'' ''fr''),
      Quad (NamedNode ''ex:c'') (NamedNode ''ex:knows'') (NamedNode ''ex:a'')]"

definition exampleDataset :: "Dataset option" where
  "exampleDataset = Some (tripleSource exampleQuads)"

text \<open>The node map after the root \<open>ex:a\<close> was expanded, and after its \<open>out\<close> node was.\<close>

definition expandedRoot :: NodeMap where
  "expandedRoot = snd (loadNodeChildren exampleDataset (rootNodes ''ex:a'') ''root:ex:a'')"

definition expandedOut :: NodeMap where
  "expandedOut = snd (loadNodeChildren exampleDataset expandedRoot ''root:ex:a->out:ex:a'')"

text \<open>The specialized traversal of \<open>ex:knows\<close>, outgoing, after its start node \<open>ex:a\<close> was loaded.\<close>

definition specializedExample :: SpecializedMap where
  "specializedExample = loadNode exampleDataset ''ex:knows'' DirOut (startNodes ''ex:a'') ''ex:a''"

text \<open>A source whose every query yields two triples and then throws.\<close>

definition failingDataset :: "Dataset option" where
  "failingDataset =
     Some (\<lambda>s p ob.
       iterateThenThrow
         [Quad (NamedNode ''ex:a'') (NamedNode ''ex:knows'') (NamedNode ''ex:b''),
          Quad (NamedNode ''ex:a'') (NamedNode ''ex:name'') (Literal ''Al'' ''en'')]
         ''connection lost'')"

text \<open>The predicate nodes below the \<open>out\<close> node of \<open>ex:a\<close>, and their ids.\<close>

definition examplePredicateId :: "string \<Rightarrow> NodeId" where
  "examplePredicateId p = getNodeId TPredicate ''ex:a'' (Some p) (Some ''root:ex:a->out:ex:a'')"

definition examplePredicateNode :: "string \<Rightarrow> NodeData" where
  "examplePredicateNode p =
     (newNode TPredicate ''ex:a'')
       \<lparr>predicate := Some p, parentType := Some DirOut,
        parentNodeId := Some ''root:ex:a->out:ex:a''\<rparr>"

section \<open>A predicate with 150 objects\<close>

text \<open>
  What the loop of \<open>loadObjects\<close> retains of a matched quad (a named resource or a
  literal as object), and the entry it pushes for a retained quad.
\<close>

definition retainedObject :: "Quad \<Rightarrow> bool" where
  "retainedObject q =
     (termType (q_object q) = ''NamedNode'' \<or> termType (q_object q) = ''Literal'')"

definition objectInfoOf :: "Quad \<Rightarrow> ObjectInfo" where
  "objectInfoOf q =
     \<lparr>oi_value = termValue (q_object q), oi_isLiteral = (termType (q_object q) = ''Literal'')\<rparr>"

text \<open>Decimal numerals, to name the resources \<open>ex:v1\<close> to \<open>ex:v150\<close>.\<close>

definition digit :: "nat \<Rightarrow> char" where
  "digit n = char_of (48 + n)"

function decimal :: "nat \<Rightarrow> string" where
  "decimal n = (if n < 10 then [digit n] else decimal (n div 10) @ [digit (n mod 10)])"
  by pat_completeness auto
termination
  by (relation "measure id") auto

declare decimal.simps [simp del]

definition manyQuads :: "Quad list" where
  "manyQuads =
     map (\<lambda>k. Quad (NamedNode ''ex:a'') (NamedNode ''ex:p'') (NamedNode (''ex:v'' @ decimal k)))
       [1..<151]"

text \<open>The same triples after one whose object is a blank node.\<close>

definition cappedQuads :: "Quad list" where
  "cappedQuads = Quad (NamedNode ''ex:a'') (NamedNode ''ex:p'') (BlankNode ''b0'') # manyQuads"

text \<open>A node map that holds the predicate node of \<open>ex:p\<close> below the \<open>out\<close> node of \<open>ex:a\<close>.\<close>

definition manyNodes :: NodeMap where
  "manyNodes = [(examplePredicateId ''ex:p'', examplePredicateNode ''ex:p'')]"

text \<open>A node map with one entry per key, every entry filed under the IRI of its record.\<close>

definition keyedByIri :: "SpecializedMap \<Rightarrow> bool" where
  "keyedByIri nodes = (distinct (map fst nodes) \<and> list_all (\<lambda>kn. sn_iri (snd kn) = fst kn) nodes)"

section \<open>Node identities, the node map and the loops\<close>


lemma getNodeId_not_parent: "getNodeId t i p (Some n) \<noteq> n"
  by (cases t) (auto simp: getNodeId_def Let_def split: option.splits)

lemma getNodeId_in_out: "getNodeId TIn i None (Some n) \<noteq> getNodeId TOut i None (Some n)"
  by (auto simp: getNodeId_def Let_def)

lemma getNodeId_object_inj:
  "getNodeId TObject v None (Some n) = getNodeId TObject v' None (Some n) \<longleftrightarrow> v = v'"
  by (auto simp: getNodeId_def Let_def)


lemma map_of_fold_update:
  "distinct (map fst nn) \<Longrightarrow>
   map_of (fold (\<lambda>(k, v) m. AList.update k v m) nn prev) = map_of prev ++ map_of nn"
proof (induction nn arbitrary: prev)
  case Nil
  then show ?case by simp
next
  case (Cons kv nn)
  obtain k v where kv: "kv = (k, v)" by (cases kv)
  from Cons.prems kv have "map_of nn k = None"
    by (simp add: map_of_eq_None_iff)
  then have eq: "(map_of prev)(k \<mapsto> v) ++ map_of nn = map_of prev ++ map_of ((k, v) # nn)"
    by (auto simp: map_add_def fun_eq_iff split: option.splits)
  from Cons.prems have "distinct (map fst nn)" by simp
  then have b: "map_of (fold (\<lambda>(k, v) m. AList.update k v m) nn (AList.update k v prev)) =
             map_of (AList.update k v prev) ++ map_of nn"
    by (rule Cons.IH)
  have a: "fold (\<lambda>(k, v) m. AList.update k v m) (kv # nn) prev =
           fold (\<lambda>(k, v) m. AList.update k v m) nn (AList.update k v prev)"
    by (simp add: kv)
  have c: "map_of (AList.update k v prev) = (map_of prev)(k \<mapsto> v)"
    by (rule update_conv')
  have "map_of (fold (\<lambda>(k, v) m. AList.update k v m) (kv # nn) prev) =
        map_of (AList.update k v prev) ++ map_of nn"
    by (simp only: a b)
  also have "\<dots> = (map_of prev)(k \<mapsto> v) ++ map_of nn"
    by (simp only: c)
  also have "\<dots> = map_of prev ++ map_of ((k, v) # nn)"
    by (rule eq)
  finally show ?case by (simp only: kv)
qed

lemma map_of_writeBack:
  assumes "distinct (map fst nn)"
  shows "map_of (writeBack nn chs nodeId prev) =
     (case (map_of prev ++ map_of nn) nodeId of
        None \<Rightarrow> map_of prev ++ map_of nn
      | Some u \<Rightarrow>
          if singleLiteralValue u = None
          then (map_of prev ++ map_of nn)(nodeId \<mapsto> u\<lparr>loaded := True, children := Some chs\<rparr>)
          else map_of prev ++ map_of nn)"
proof -
  define updatedNodes where
    "updatedNodes = fold (\<lambda>(childId, childNode) m. AList.update childId childNode m) nn prev"
  have m: "map_of updatedNodes = map_of prev ++ map_of nn"
    unfolding updatedNodes_def using assms by (rule map_of_fold_update)
  have "map_of (writeBack nn chs nodeId prev) =
     (case map_of updatedNodes nodeId of
        None \<Rightarrow> map_of updatedNodes
      | Some u \<Rightarrow>
          if singleLiteralValue u = None
          then (map_of updatedNodes)(nodeId \<mapsto> u\<lparr>loaded := True, children := Some chs\<rparr>)
          else map_of updatedNodes)"
    by (cases "map_of updatedNodes nodeId")
       (simp_all add: writeBack_def Let_def updatedNodes_def [symmetric] update_conv')
  then show ?thesis by (simp only: m)
qed

lemma addValueNodes_children:
  "snd (addValueNodes val mk objs nodeId (nn, chs)) =
     chs @ map (\<lambda>obj. getNodeId TObject (val obj) None (Some nodeId)) objs"
  by (induction objs arbitrary: nn chs) (simp_all add: Let_def)

lemma addValueNodes_distinct:
  "distinct (map fst nn) \<Longrightarrow> distinct (map fst (fst (addValueNodes val mk objs nodeId (nn, chs))))"
  by (induction objs arbitrary: nn chs) (simp_all add: Let_def distinct_update)

lemma addValueNodes_map_of:
  "map_of (fst (addValueNodes val mk objs nodeId (nn, chs))) k =
     (case map_of nn k of
        Some v \<Rightarrow> Some v
      | None \<Rightarrow> map_option mk (find (\<lambda>obj. getNodeId TObject (val obj) None (Some nodeId) = k) objs))"
  by (induction objs arbitrary: nn chs)
     (auto simp: Let_def has_def update_conv' split: option.splits)





lemma objectsLoop_bound:
  "objectsLoop it limit count objs = Inr r \<Longrightarrow> length r \<le> length objs + (limit - count)"
proof (induction it arbitrary: count objs)
  case Done
  then show ?case by simp
next
  case (Throw e)
  then show ?case by simp
next
  case (Yield q it)
  show ?case
  proof (cases "count \<ge> limit")
    case True
    with Yield.prems show ?thesis by simp
  next
    case False
    let ?objs = "if termType (q_object q) = ''NamedNode'' \<or> termType (q_object q) = ''Literal''
                 then objs @ [\<lparr>oi_value = termValue (q_object q),
                                 oi_isLiteral = (termType (q_object q) = ''Literal'')\<rparr>]
                 else objs"
    from False Yield.prems have "objectsLoop it limit (count + 1) ?objs = Inr r"
      by simp
    then have "length r \<le> length ?objs + (limit - (count + 1))"
      by (rule Yield.IH)
    moreover have "length ?objs \<le> length objs + 1" by simp
    ultimately show ?thesis using False by linarith
  qed
qed

lemma objectsLoop_iterate:
  "objectsLoop (iterate qs) limit count objs =
     Inr (objs @ map (\<lambda>q. \<lparr>oi_value = termValue (q_object q),
                              oi_isLiteral = (termType (q_object q) = ''Literal'')\<rparr>)
                  (filter (\<lambda>q. termType (q_object q) = ''NamedNode'' \<or>
                                termType (q_object q) = ''Literal'')
                     (take (limit - count) qs)))"
proof (induction qs arbitrary: count objs)
  case Nil
  then show ?case by simp
next
  case (Cons q qs)
  show ?case
  proof (cases "count \<ge> limit")
    case True
    then show ?thesis by simp
  next
    case False
    then have "limit - count = Suc (limit - (count + 1))" by simp
    with False Cons show ?thesis by simp
  qed
qed

lemma collectPredicates_iterate:
  "distinct acc \<Longrightarrow> \<exists>ps. collectPredicates (iterate qs) acc = Inr ps \<and> distinct ps \<and>
      set ps = set acc \<union> (\<lambda>q. termValue (q_predicate q)) ` set qs"
proof (induction qs arbitrary: acc)
  case Nil
  then show ?case by simp
next
  case (Cons q qs)
  let ?acc = "if termValue (q_predicate q) \<in> set acc then acc
              else acc @ [termValue (q_predicate q)]"
  from Cons.prems have "distinct ?acc" by simp
  from Cons.IH [OF this] obtain ps where
    ps: "collectPredicates (iterate qs) ?acc = Inr ps" "distinct ps"
        "set ps = set ?acc \<union> (\<lambda>q. termValue (q_predicate q)) ` set qs"
    by blast
  have "set ?acc = insert (termValue (q_predicate q)) (set acc)" by auto
  with ps show ?case by auto
qed

section \<open>The focus registry of the bookmark store\<close>

lemma fillFocusedInput_eq:
  "fillFocusedInput i state =
     (case lastFocusedInputId state of
        None \<Rightarrow> state
      | Some inputId \<Rightarrow>
          if inputId = [] then state
          else state\<lparr>fieldStates := (fieldStates state)(inputId \<mapsto> i)\<rparr>)"
  by (simp add: fillFocusedInput_def setState_def wholeState_def split: option.splits)

text \<open>
  C10, as stated, at a store whose last-focused id is the empty string: the id is not
  \<open>null\<close>, and \<open>fillFocusedInput\<close> still writes no field entry for it.
\<close>

theorem fillFocusedInput_empty_id_counterexample:
  "lastFocusedInputId (setLastFocusedInputId (Some []) initialStore) \<noteq> None \<and>
   fieldStates (fillFocusedInput ''http://example.org/a''
                  (setLastFocusedInputId (Some []) initialStore)) []
     \<noteq> Some ''http://example.org/a''"
  by (simp add: fillFocusedInput_eq setLastFocusedInputId_def setState_def initialStore_def)

text \<open>
  C10 (amended): \<open>fillFocusedInput(iri)\<close> leaves the whole state unchanged when
  \<open>lastFocusedInputId\<close> is \<open>null\<close> or the empty string; otherwise it sets the field entry
  of the last-focused input id to \<open>iri\<close> and leaves the bookmarks, \<open>lastFocusedInputId\<close>
  and every other field entry unchanged.
\<close>

theorem fillFocusedInput_frame:
  "(lastFocusedInputId state = None \<or> lastFocusedInputId state = Some []
      \<longrightarrow> fillFocusedInput i state = state) \<and>
   (\<forall>inputId. lastFocusedInputId state = Some inputId \<and> inputId \<noteq> [] \<longrightarrow>
      fieldStates (fillFocusedInput i state) inputId = Some i \<and>
      (\<forall>other. other \<noteq> inputId \<longrightarrow>
         fieldStates (fillFocusedInput i state) other = fieldStates state other) \<and>
      bookmarks (fillFocusedInput i state) = bookmarks state \<and>
      lastFocusedInputId (fillFocusedInput i state) = lastFocusedInputId state)"
  by (auto simp: fillFocusedInput_eq)

theorem fillFocusedInput_frame_witness:
  "fillFocusedInput ''http://example.org/a'' initialStore = initialStore \<and>
   lastFocusedInputId (setLastFocusedInputId (Some ''graph-browser-root-iri'') initialStore)
     = Some ''graph-browser-root-iri'' \<and>
   fieldStates (fillFocusedInput ''http://example.org/a''
                  (setLastFocusedInputId (Some ''graph-browser-root-iri'') initialStore))
     ''graph-browser-root-iri'' = Some ''http://example.org/a'' \<and>
   fieldStates (fillFocusedInput ''http://example.org/a''
                  (setLastFocusedInputId (Some ''graph-browser-root-iri'') initialStore))
     ''other-field'' = None \<and>
   bookmarks (fillFocusedInput ''http://example.org/a''
                  (setLastFocusedInputId (Some ''graph-browser-root-iri'') initialStore)) = []"
  using fillFocusedInput_frame [of initialStore "''http://example.org/a''"]
        fillFocusedInput_frame [of "setLastFocusedInputId (Some ''graph-browser-root-iri'') initialStore"
                                   "''http://example.org/a''"]
  by (simp add: setLastFocusedInputId_def setState_def initialStore_def)


section \<open>Roots and direction groups\<close>


lemma resolveChildren_root:
  "ntype node = TRoot \<Longrightarrow>
   resolveChildren dataset node nodeId =
     Inr ([(getNodeId TIn (iri node) None (Some nodeId), directionNode TIn (iri node) nodeId),
           (getNodeId TOut (iri node) None (Some nodeId), directionNode TOut (iri node) nodeId)],
          [getNodeId TIn (iri node) None (Some nodeId), getNodeId TOut (iri node) None (Some nodeId)])"
  by (simp add: resolveChildren_def Let_def getNodeId_in_out)

lemma sort_distinct_eq:
  fixes xs :: "string list"
  shows "distinct xs \<Longrightarrow> sort xs = sorted_list_of_set (set xs)"
  by (simp add: sorted_list_of_set_sort_remdups distinct_remdups_id)

lemma loadOutgoingPredicates_tripleSource:
  "loadOutgoingPredicates (Some (tripleSource qs)) i =
     Inr (sorted_list_of_set ((\<lambda>q. termValue (q_predicate q)) `
            set (filter (matchesPattern (Some (NamedNode i)) None None) qs)))"
proof -
  obtain ps where ps: "collectPredicates (tripleSource qs (Some (NamedNode i)) None None) [] = Inr ps"
      "distinct ps"
      "set ps = (\<lambda>q. termValue (q_predicate q)) `
            set (filter (matchesPattern (Some (NamedNode i)) None None) qs)"
    using collectPredicates_iterate [of "[]" "filter (matchesPattern (Some (NamedNode i)) None None) qs"]
    by (auto simp: tripleSource_def)
  then show ?thesis
    by (simp add: loadOutgoingPredicates_def sort_distinct_eq del: set_filter)
qed

lemma loadIncomingPredicates_tripleSource:
  "loadIncomingPredicates (Some (tripleSource qs)) i =
     Inr (sorted_list_of_set ((\<lambda>q. termValue (q_predicate q)) `
            set (filter (matchesPattern None None (Some (NamedNode i))) qs)))"
proof -
  obtain ps where ps: "collectPredicates (tripleSource qs None None (Some (NamedNode i))) [] = Inr ps"
      "distinct ps"
      "set ps = (\<lambda>q. termValue (q_predicate q)) `
            set (filter (matchesPattern None None (Some (NamedNode i))) qs)"
    using collectPredicates_iterate [of "[]" "filter (matchesPattern None None (Some (NamedNode i))) qs"]
    by (auto simp: tripleSource_def)
  then show ?thesis
    by (simp add: loadIncomingPredicates_def sort_distinct_eq del: set_filter)
qed


lemma loadNodeChildren_root:
  assumes "map_of nodes nodeId = Some node" and "ntype node = TRoot" and "\<not> loaded node"
  shows "loadNodeChildren dataset nodes nodeId =
     (SuccessfullyLoaded 2,
      writeBack
        [(getNodeId TIn (iri node) None (Some nodeId), directionNode TIn (iri node) nodeId),
         (getNodeId TOut (iri node) None (Some nodeId), directionNode TOut (iri node) nodeId)]
        [getNodeId TIn (iri node) None (Some nodeId), getNodeId TOut (iri node) None (Some nodeId)]
        nodeId nodes)"
  using assms
  by (simp add: loadNodeChildren_def startExpansion_def finishExpansion_def resolveChildren_root)

lemma map_of_root_writeBack:
  assumes "map_of nodes nodeId = Some node" and "singleLiteralValue node = None"
  shows "map_of (writeBack
        [(getNodeId TIn i None (Some nodeId), dIn), (getNodeId TOut i None (Some nodeId), dOut)]
        chs nodeId nodes) =
     (map_of nodes)(getNodeId TIn i None (Some nodeId) \<mapsto> dIn,
                    getNodeId TOut i None (Some nodeId) \<mapsto> dOut,
                    nodeId \<mapsto> node\<lparr>loaded := True, children := Some chs\<rparr>)"
proof -
  have d: "distinct (map fst [(getNodeId TIn i None (Some nodeId), dIn),
                               (getNodeId TOut i None (Some nodeId), dOut)])"
    by (simp add: getNodeId_in_out)
  have n: "(map_of nodes ++ map_of [(getNodeId TIn i None (Some nodeId), dIn),
                               (getNodeId TOut i None (Some nodeId), dOut)]) nodeId = Some node"
    using assms(1) getNodeId_not_parent [of TIn i None nodeId]
      getNodeId_not_parent [of TOut i None nodeId]
    by (simp add: map_add_def)
  show ?thesis
    unfolding map_of_writeBack [OF d] n using assms(2) getNodeId_in_out [of i nodeId]
    by (auto simp: map_add_def fun_eq_iff)
qed

lemma loadNodeChildren_no_predicates:
  assumes "map_of nodes k = Some d" and "\<not> loaded d" and "singleLiteralValue d = None"
    and "ntype d = TOut \<and> filter (matchesPattern (Some (NamedNode (iri d))) None None) qs = [] \<or>
         ntype d = TIn \<and> filter (matchesPattern None None (Some (NamedNode (iri d)))) qs = []"
  shows "loadNodeChildren (Some (tripleSource qs)) nodes k =
     (SuccessfullyLoaded 0, AList.update k (d\<lparr>loaded := True, children := Some []\<rparr>) nodes)"
  using assms
  by (auto simp: loadNodeChildren_def startExpansion_def finishExpansion_def resolveChildren_def
        loadOutgoingPredicates_tripleSource loadIncomingPredicates_tripleSource writeBack_def
      simp del: set_filter)


lemma root_expansion:
  assumes "map_of nodes nodeId = Some node" and "ntype node = TRoot" and "\<not> loaded node"
    and "singleLiteralValue node = None"
  shows "let inNodeId = getNodeId TIn (iri node) None (Some nodeId);
             outNodeId = getNodeId TOut (iri node) None (Some nodeId);
             nodes' = snd (loadNodeChildren dataset nodes nodeId)
         in fst (loadNodeChildren dataset nodes nodeId) = SuccessfullyLoaded 2 \<and>
            map_of nodes' nodeId =
              Some (node\<lparr>loaded := True, children := Some [inNodeId, outNodeId]\<rparr>) \<and>
            inNodeId \<noteq> outNodeId \<and>
            map_of nodes' inNodeId = Some (directionNode TIn (iri node) nodeId) \<and>
            map_of nodes' outNodeId = Some (directionNode TOut (iri node) nodeId) \<and>
            (\<forall>qs. (\<forall>q \<in> set qs. q_subject q \<noteq> NamedNode (iri node) \<and>
                                  q_object q \<noteq> NamedNode (iri node)) \<longrightarrow>
               loadNodeChildren (Some (tripleSource qs)) nodes' inNodeId =
                 (SuccessfullyLoaded 0,
                  AList.update inNodeId
                    ((directionNode TIn (iri node) nodeId)\<lparr>loaded := True, children := Some []\<rparr>)
                    nodes') \<and>
               loadNodeChildren (Some (tripleSource qs)) nodes' outNodeId =
                 (SuccessfullyLoaded 0,
                  AList.update outNodeId
                    ((directionNode TOut (iri node) nodeId)\<lparr>loaded := True, children := Some []\<rparr>)
                    nodes'))"
proof -
  let ?inId = "getNodeId TIn (iri node) None (Some nodeId)"
  let ?outId = "getNodeId TOut (iri node) None (Some nodeId)"
  let ?dIn = "directionNode TIn (iri node) nodeId"
  let ?dOut = "directionNode TOut (iri node) nodeId"
  let ?nodes' = "writeBack [(?inId, ?dIn), (?outId, ?dOut)] [?inId, ?outId] nodeId nodes"
  have run: "loadNodeChildren dataset nodes nodeId = (SuccessfullyLoaded 2, ?nodes')"
    using assms(1-3) by (rule loadNodeChildren_root)
  have m: "map_of ?nodes' =
      (map_of nodes)(?inId \<mapsto> ?dIn, ?outId \<mapsto> ?dOut,
                     nodeId \<mapsto> node\<lparr>loaded := True, children := Some [?inId, ?outId]\<rparr>)"
    using assms(1,4) by (rule map_of_root_writeBack)
  have ne: "?inId \<noteq> ?outId" "?inId \<noteq> nodeId" "?outId \<noteq> nodeId"
    by (simp_all add: getNodeId_in_out getNodeId_not_parent)
  have look: "map_of ?nodes' nodeId = Some (node\<lparr>loaded := True, children := Some [?inId, ?outId]\<rparr>)"
      "map_of ?nodes' ?inId = Some ?dIn" "map_of ?nodes' ?outId = Some ?dOut"
    using ne by (simp_all add: m)
  have empty: "loadNodeChildren (Some (tripleSource qs)) ?nodes' ?inId =
                 (SuccessfullyLoaded 0,
                  AList.update ?inId (?dIn\<lparr>loaded := True, children := Some []\<rparr>) ?nodes') \<and>
               loadNodeChildren (Some (tripleSource qs)) ?nodes' ?outId =
                 (SuccessfullyLoaded 0,
                  AList.update ?outId (?dOut\<lparr>loaded := True, children := Some []\<rparr>) ?nodes')"
    if none: "\<forall>q \<in> set qs. q_subject q \<noteq> NamedNode (iri node) \<and> q_object q \<noteq> NamedNode (iri node)"
    for qs
  proof -
    from none have f: "filter (matchesPattern (Some (NamedNode (iri node))) None None) qs = []"
        "filter (matchesPattern None None (Some (NamedNode (iri node)))) qs = []"
      by (auto simp: filter_empty_conv matchesPattern_def matchesTerm_def)
    have "loadNodeChildren (Some (tripleSource qs)) ?nodes' ?inId =
            (SuccessfullyLoaded 0,
             AList.update ?inId (?dIn\<lparr>loaded := True, children := Some []\<rparr>) ?nodes')"
      by (rule loadNodeChildren_no_predicates [OF look(2)])
         (simp_all add: directionNode_def newNode_def f)
    moreover have "loadNodeChildren (Some (tripleSource qs)) ?nodes' ?outId =
            (SuccessfullyLoaded 0,
             AList.update ?outId (?dOut\<lparr>loaded := True, children := Some []\<rparr>) ?nodes')"
      by (rule loadNodeChildren_no_predicates [OF look(3)])
         (simp_all add: directionNode_def newNode_def f)
    ultimately show ?thesis by simp
  qed
  show ?thesis
    unfolding Let_def run fst_conv snd_conv
    using look ne(1) empty by blast
qed

text \<open>
  C2: a root node that is expanded gets exactly two children, with no error and
  whatever the dataset holds: first a node of type \<open>in\<close>, then a node of type \<open>out\<close>, under
  two different ids, each an unloaded record of the root's IRI with the root as parent
  and nothing else set. When no triple of the source mentions the IRI, expanding either
  of the two loads zero children, again with no error: its record becomes loaded with
  an empty children list and the rest of the map stays. (A root node never carries
  \<open>singleLiteralValue\<close>: only the collapse of a predicate node sets it.)
\<close>

theorem root_invariant:
  assumes "map_of nodes nodeId = Some node" and "ntype node = TRoot" and "\<not> loaded node"
    and "singleLiteralValue node = None"
  shows "let inNodeId = getNodeId TIn (iri node) None (Some nodeId);
             outNodeId = getNodeId TOut (iri node) None (Some nodeId);
             nodes' = snd (loadNodeChildren dataset nodes nodeId)
         in fst (loadNodeChildren dataset nodes nodeId) = SuccessfullyLoaded 2 \<and>
            map_of nodes' nodeId =
              Some (node\<lparr>loaded := True, children := Some [inNodeId, outNodeId]\<rparr>) \<and>
            inNodeId \<noteq> outNodeId \<and>
            map_of nodes' inNodeId =
              Some \<lparr>ntype = TIn, iri = iri node, predicate = None, loaded = False,
                    children = None, parentType = None, isLiteral = None, literalValue = None,
                    objectInfo = None, singleLiteralValue = None,
                    parentNodeId = Some nodeId\<rparr> \<and>
            map_of nodes' outNodeId =
              Some \<lparr>ntype = TOut, iri = iri node, predicate = None, loaded = False,
                    children = None, parentType = None, isLiteral = None, literalValue = None,
                    objectInfo = None, singleLiteralValue = None,
                    parentNodeId = Some nodeId\<rparr> \<and>
            (\<forall>qs. (\<forall>q \<in> set qs. q_subject q \<noteq> NamedNode (iri node) \<and>
                                  q_object q \<noteq> NamedNode (iri node)) \<longrightarrow>
               loadNodeChildren (Some (tripleSource qs)) nodes' inNodeId =
                 (SuccessfullyLoaded 0,
                  AList.update inNodeId
                    \<lparr>ntype = TIn, iri = iri node, predicate = None, loaded = True,
                     children = Some [], parentType = None, isLiteral = None,
                     literalValue = None, objectInfo = None, singleLiteralValue = None,
                     parentNodeId = Some nodeId\<rparr>
                    nodes') \<and>
               loadNodeChildren (Some (tripleSource qs)) nodes' outNodeId =
                 (SuccessfullyLoaded 0,
                  AList.update outNodeId
                    \<lparr>ntype = TOut, iri = iri node, predicate = None, loaded = True,
                     children = Some [], parentType = None, isLiteral = None,
                     literalValue = None, objectInfo = None, singleLiteralValue = None,
                     parentNodeId = Some nodeId\<rparr>
                    nodes'))"
  using root_expansion [OF assms, of dataset]
  by (simp add: Let_def directionNode_def newNode_def)

theorem root_invariant_witness:
  "map_of (rootNodes ''ex:z'') ''root:ex:z'' = Some (newNode TRoot ''ex:z'') \<and>
   fst (loadNodeChildren exampleDataset (rootNodes ''ex:z'') ''root:ex:z'') = SuccessfullyLoaded 2 \<and>
   map_of (snd (loadNodeChildren exampleDataset (rootNodes ''ex:z'') ''root:ex:z'')) ''root:ex:z'' =
     Some ((newNode TRoot ''ex:z'')
             \<lparr>loaded := True, children := Some [''root:ex:z->in:ex:z'', ''root:ex:z->out:ex:z'']\<rparr>) \<and>
   map_of (snd (loadNodeChildren exampleDataset (rootNodes ''ex:z'') ''root:ex:z''))
       ''root:ex:z->in:ex:z'' =
     Some \<lparr>ntype = TIn, iri = ''ex:z'', predicate = None, loaded = False,
           children = None, parentType = None, isLiteral = None, literalValue = None,
           objectInfo = None, singleLiteralValue = None, parentNodeId = Some ''root:ex:z''\<rparr> \<and>
   map_of (snd (loadNodeChildren exampleDataset (rootNodes ''ex:z'') ''root:ex:z''))
       ''root:ex:z->out:ex:z'' =
     Some \<lparr>ntype = TOut, iri = ''ex:z'', predicate = None, loaded = False,
           children = None, parentType = None, isLiteral = None, literalValue = None,
           objectInfo = None, singleLiteralValue = None, parentNodeId = Some ''root:ex:z''\<rparr> \<and>
   loadNodeChildren exampleDataset
       (snd (loadNodeChildren exampleDataset (rootNodes ''ex:z'') ''root:ex:z''))
       ''root:ex:z->in:ex:z'' =
     (SuccessfullyLoaded 0,
      AList.update ''root:ex:z->in:ex:z''
        \<lparr>ntype = TIn, iri = ''ex:z'', predicate = None, loaded = True,
         children = Some [], parentType = None, isLiteral = None, literalValue = None,
         objectInfo = None, singleLiteralValue = None, parentNodeId = Some ''root:ex:z''\<rparr>
        (snd (loadNodeChildren exampleDataset (rootNodes ''ex:z'') ''root:ex:z''))) \<and>
   loadNodeChildren exampleDataset
       (snd (loadNodeChildren exampleDataset (rootNodes ''ex:z'') ''root:ex:z''))
       ''root:ex:z->out:ex:z'' =
     (SuccessfullyLoaded 0,
      AList.update ''root:ex:z->out:ex:z''
        \<lparr>ntype = TOut, iri = ''ex:z'', predicate = None, loaded = True,
         children = Some [], parentType = None, isLiteral = None, literalValue = None,
         objectInfo = None, singleLiteralValue = None, parentNodeId = Some ''root:ex:z''\<rparr>
        (snd (loadNodeChildren exampleDataset (rootNodes ''ex:z'') ''root:ex:z'')))"
proof -
  have h1: "map_of (rootNodes ''ex:z'') ''root:ex:z'' = Some (newNode TRoot ''ex:z'')"
    by (simp add: rootNodes_def getNodeId_def)
  have h2: "ntype (newNode TRoot ''ex:z'') = TRoot" "\<not> loaded (newNode TRoot ''ex:z'')"
      "singleLiteralValue (newNode TRoot ''ex:z'') = None"
    by (simp_all add: newNode_def)
  have i: "iri (newNode TRoot ''ex:z'') = ''ex:z''"
    by (simp add: newNode_def)
  have ids: "getNodeId TIn ''ex:z'' None (Some ''root:ex:z'') = ''root:ex:z->in:ex:z''"
      "getNodeId TOut ''ex:z'' None (Some ''root:ex:z'') = ''root:ex:z->out:ex:z''"
    by (simp_all add: getNodeId_def)
  have none: "\<forall>q \<in> set exampleQuads. q_subject q \<noteq> NamedNode ''ex:z'' \<and>
                q_object q \<noteq> NamedNode ''ex:z''"
    by (simp add: exampleQuads_def)
  note t = root_invariant [OF h1 h2, of exampleDataset, unfolded Let_def i ids]
  from t have e: "(\<forall>q \<in> set exampleQuads. q_subject q \<noteq> NamedNode ''ex:z'' \<and>
                               q_object q \<noteq> NamedNode ''ex:z'') \<longrightarrow>
       loadNodeChildren (Some (tripleSource exampleQuads))
           (snd (loadNodeChildren exampleDataset (rootNodes ''ex:z'') ''root:ex:z''))
           ''root:ex:z->in:ex:z'' =
         (SuccessfullyLoaded 0,
          AList.update ''root:ex:z->in:ex:z''
            \<lparr>ntype = TIn, iri = ''ex:z'', predicate = None, loaded = True,
             children = Some [], parentType = None, isLiteral = None, literalValue = None,
             objectInfo = None, singleLiteralValue = None, parentNodeId = Some ''root:ex:z''\<rparr>
            (snd (loadNodeChildren exampleDataset (rootNodes ''ex:z'') ''root:ex:z''))) \<and>
       loadNodeChildren (Some (tripleSource exampleQuads))
           (snd (loadNodeChildren exampleDataset (rootNodes ''ex:z'') ''root:ex:z''))
           ''root:ex:z->out:ex:z'' =
         (SuccessfullyLoaded 0,
          AList.update ''root:ex:z->out:ex:z''
            \<lparr>ntype = TOut, iri = ''ex:z'', predicate = None, loaded = True,
             children = Some [], parentType = None, isLiteral = None, literalValue = None,
             objectInfo = None, singleLiteralValue = None, parentNodeId = Some ''root:ex:z''\<rparr>
            (snd (loadNodeChildren exampleDataset (rootNodes ''ex:z'') ''root:ex:z'')))"
    by blast
  from e none have z: "loadNodeChildren (Some (tripleSource exampleQuads))
           (snd (loadNodeChildren exampleDataset (rootNodes ''ex:z'') ''root:ex:z''))
           ''root:ex:z->in:ex:z'' =
         (SuccessfullyLoaded 0,
          AList.update ''root:ex:z->in:ex:z''
            \<lparr>ntype = TIn, iri = ''ex:z'', predicate = None, loaded = True,
             children = Some [], parentType = None, isLiteral = None, literalValue = None,
             objectInfo = None, singleLiteralValue = None, parentNodeId = Some ''root:ex:z''\<rparr>
            (snd (loadNodeChildren exampleDataset (rootNodes ''ex:z'') ''root:ex:z'')))"
       "loadNodeChildren (Some (tripleSource exampleQuads))
           (snd (loadNodeChildren exampleDataset (rootNodes ''ex:z'') ''root:ex:z''))
           ''root:ex:z->out:ex:z'' =
         (SuccessfullyLoaded 0,
          AList.update ''root:ex:z->out:ex:z''
            \<lparr>ntype = TOut, iri = ''ex:z'', predicate = None, loaded = True,
             children = Some [], parentType = None, isLiteral = None, literalValue = None,
             objectInfo = None, singleLiteralValue = None, parentNodeId = Some ''root:ex:z''\<rparr>
            (snd (loadNodeChildren exampleDataset (rootNodes ''ex:z'') ''root:ex:z'')))"
    by blast+
  from t have c: "fst (loadNodeChildren exampleDataset (rootNodes ''ex:z'') ''root:ex:z'')
        = SuccessfullyLoaded 2"
      "map_of (snd (loadNodeChildren exampleDataset (rootNodes ''ex:z'') ''root:ex:z'')) ''root:ex:z'' =
         Some ((newNode TRoot ''ex:z'')
                 \<lparr>loaded := True, children := Some [''root:ex:z->in:ex:z'', ''root:ex:z->out:ex:z'']\<rparr>)"
      "map_of (snd (loadNodeChildren exampleDataset (rootNodes ''ex:z'') ''root:ex:z''))
           ''root:ex:z->in:ex:z'' =
         Some \<lparr>ntype = TIn, iri = ''ex:z'', predicate = None, loaded = False,
               children = None, parentType = None, isLiteral = None, literalValue = None,
               objectInfo = None, singleLiteralValue = None, parentNodeId = Some ''root:ex:z''\<rparr>"
      "map_of (snd (loadNodeChildren exampleDataset (rootNodes ''ex:z'') ''root:ex:z''))
           ''root:ex:z->out:ex:z'' =
         Some \<lparr>ntype = TOut, iri = ''ex:z'', predicate = None, loaded = False,
               children = None, parentType = None, isLiteral = None, literalValue = None,
               objectInfo = None, singleLiteralValue = None, parentNodeId = Some ''root:ex:z''\<rparr>"
    by blast+
  from h1 c z show ?thesis
    unfolding exampleDataset_def by (intro conjI)
qed


lemma find_getNodeId_parent:
  "find (\<lambda>x. getNodeId t (f x) (g x) (Some nodeId) = nodeId) xs = None"
  by (simp add: find_None_iff getNodeId_not_parent)




lemma expandedRoot_eq:
  "expandedRoot =
     [(''root:ex:a'', (newNode TRoot ''ex:a'')
         \<lparr>loaded := True, children := Some [''root:ex:a->in:ex:a'', ''root:ex:a->out:ex:a'']\<rparr>),
      (''root:ex:a->in:ex:a'', directionNode TIn ''ex:a'' ''root:ex:a''),
      (''root:ex:a->out:ex:a'', directionNode TOut ''ex:a'' ''root:ex:a'')]"
  by (simp add: expandedRoot_def loadNodeChildren_def startExpansion_def finishExpansion_def
        resolveChildren_def writeBack_def rootNodes_def getNodeId_def newNode_def
        directionNode_def Let_def has_def)





section \<open>Loaded nodes and failed queries\<close>

lemma specializedExample_eq:
  "specializedExample =
     [(''ex:a'', \<lparr>sn_iri = ''ex:a'', sn_label = Some ''Alice'', sn_loaded = True,
                  sn_children = Some [''ex:b'', ''ex:c'']\<rparr>),
      (''ex:b'', \<lparr>sn_iri = ''ex:b'', sn_label = None, sn_loaded = False, sn_children = None\<rparr>),
      (''ex:c'', \<lparr>sn_iri = ''ex:c'', sn_label = None, sn_loaded = False, sn_children = None\<rparr>)]"
  by code_simp

text \<open>
  C6: expanding a node whose record is loaded changes nothing. In the general browser
  the call reports that the node is loaded already and returns the node map as it was;
  in the specialized traversal \<open>loadNode\<close> returns the node map as it was, whatever the
  queries it still runs give.
\<close>

theorem expansion_of_loaded_node_is_noop:
  "(\<forall>node. map_of nodes nodeId = Some node \<and> loaded node \<longrightarrow>
      loadNodeChildren dataset nodes nodeId = (AlreadyLoaded, nodes)) \<and>
   (\<forall>existing. map_of snodes i = Some existing \<and> sn_loaded existing \<longrightarrow>
      loadNode dataset predicateIri direction snodes i = snodes)"
  by (auto simp: loadNodeChildren_def startExpansion_def finishExpansion_def loadNode_def
        specializedWriteBack_def split: option.splits sum.splits)

theorem expansion_of_loaded_node_is_noop_witness:
  "map_of expandedRoot ''root:ex:a'' =
     Some ((newNode TRoot ''ex:a'')
             \<lparr>loaded := True, children := Some [''root:ex:a->in:ex:a'', ''root:ex:a->out:ex:a'']\<rparr>) \<and>
   loadNodeChildren exampleDataset expandedRoot ''root:ex:a'' = (AlreadyLoaded, expandedRoot) \<and>
   map_of specializedExample ''ex:a'' =
     Some \<lparr>sn_iri = ''ex:a'', sn_label = Some ''Alice'', sn_loaded = True,
           sn_children = Some [''ex:b'', ''ex:c'']\<rparr> \<and>
   loadNode exampleDataset ''ex:knows'' DirOut specializedExample ''ex:a'' = specializedExample"
proof -
  have g: "map_of expandedRoot ''root:ex:a'' =
     Some ((newNode TRoot ''ex:a'')
             \<lparr>loaded := True, children := Some [''root:ex:a->in:ex:a'', ''root:ex:a->out:ex:a'']\<rparr>)"
    by (simp add: expandedRoot_eq)
  have s: "map_of specializedExample ''ex:a'' =
     Some \<lparr>sn_iri = ''ex:a'', sn_label = Some ''Alice'', sn_loaded = True,
           sn_children = Some [''ex:b'', ''ex:c'']\<rparr>"
    by (simp add: specializedExample_eq)
  from g s
    expansion_of_loaded_node_is_noop [of expandedRoot "''root:ex:a''" exampleDataset
      specializedExample "''ex:a''" "''ex:knows''" DirOut]
  show ?thesis by simp
qed

lemma collectPredicates_thrown:
  "thrown it = Some e \<Longrightarrow> collectPredicates it acc = Inl e"
  by (induction it arbitrary: acc) simp_all

lemma objectsLoop_thrown:
  "thrownWithin (limit - count) it = Some e \<Longrightarrow> objectsLoop it limit count objs = Inl e"
proof (induction it arbitrary: count objs)
  case (Yield q it)
  show ?case
  proof (cases "count \<ge> limit")
    case True
    with Yield.prems show ?thesis by simp
  next
    case False
    then have "limit - count = Suc (limit - (count + 1))" by simp
    with Yield.prems have "thrownWithin (limit - (count + 1)) it = Some e" by simp
    with False Yield.IH show ?thesis by simp
  qed
qed simp_all

lemma subjectsLoop_thrown:
  "thrownWithin (limit - count) it = Some e \<Longrightarrow> subjectsLoop it limit count subjects = Inl e"
proof (induction it arbitrary: count subjects)
  case (Yield q it)
  show ?case
  proof (cases "count \<ge> limit")
    case True
    with Yield.prems show ?thesis by simp
  next
    case False
    then have "limit - count = Suc (limit - (count + 1))" by simp
    with Yield.prems have "thrownWithin (limit - (count + 1)) it = Some e" by simp
    with False Yield.IH show ?thesis by simp
  qed
qed simp_all

text \<open>
  C7: when the query of an expansion throws (for a direction node anywhere in the
  iteration; for a predicate node within the quads the capped loop takes), the call
  reports the error and the node map is the one it started from: the node is still
  there and unloaded, no record of a child was added, and a later expansion of the same
  node, with any dataset, runs as it would have run on the map before the failure.
\<close>

theorem failed_query_commits_nothing:
  assumes "map_of nodes nodeId = Some node" and "\<not> loaded node"
    and "(ntype node = TOut \<and> thrown (ds (Some (NamedNode (iri node))) None None) = Some e) \<or>
         (ntype node = TIn \<and> thrown (ds None None (Some (NamedNode (iri node)))) = Some e) \<or>
         (ntype node = TPredicate \<and> iri node \<noteq> [] \<and> predicate node = Some p \<and> p \<noteq> [] \<and>
            parentType node = Some DirOut \<and>
            thrownWithin defaultLimit
              (ds (Some (NamedNode (iri node))) (Some (NamedNode p)) None) = Some e) \<or>
         (ntype node = TPredicate \<and> iri node \<noteq> [] \<and> predicate node = Some p \<and> p \<noteq> [] \<and>
            parentType node \<noteq> Some DirOut \<and>
            thrownWithin defaultLimit
              (ds None (Some (NamedNode p)) (Some (NamedNode (iri node)))) = Some e)"
  shows "loadNodeChildren (Some ds) nodes nodeId = (LoadError e, nodes) \<and>
         map_of (snd (loadNodeChildren (Some ds) nodes nodeId)) nodeId = Some node \<and>
         (\<forall>dataset'. loadNodeChildren dataset' (snd (loadNodeChildren (Some ds) nodes nodeId)) nodeId =
                      loadNodeChildren dataset' nodes nodeId)"
proof -
  have "resolveChildren (Some ds) node nodeId = Inl e"
    using assms(3)
    by (auto simp: resolveChildren_def loadOutgoingPredicates_def loadIncomingPredicates_def
          loadObjects_def loadSubjects_def collectPredicates_thrown objectsLoop_thrown
          subjectsLoop_thrown)
  then have "loadNodeChildren (Some ds) nodes nodeId = (LoadError e, nodes)"
    using assms(1,2)
    by (simp add: loadNodeChildren_def startExpansion_def finishExpansion_def)
  then show ?thesis using assms(1) by simp
qed

theorem failed_query_commits_nothing_witness:
  "map_of expandedRoot ''root:ex:a->out:ex:a'' = Some (directionNode TOut ''ex:a'' ''root:ex:a'') \<and>
   loadNodeChildren failingDataset expandedRoot ''root:ex:a->out:ex:a'' =
     (LoadError ''connection lost'', expandedRoot) \<and>
   loadNodeChildren exampleDataset
       (snd (loadNodeChildren failingDataset expandedRoot ''root:ex:a->out:ex:a''))
       ''root:ex:a->out:ex:a'' =
     loadNodeChildren exampleDataset expandedRoot ''root:ex:a->out:ex:a''"
proof -
  let ?ds = "\<lambda>s p ob. iterateThenThrow
         [Quad (NamedNode ''ex:a'') (NamedNode ''ex:knows'') (NamedNode ''ex:b''),
          Quad (NamedNode ''ex:a'') (NamedNode ''ex:name'') (Literal ''Al'' ''en'')]
         ''connection lost''"
  have h1: "map_of expandedRoot ''root:ex:a->out:ex:a'' = Some (directionNode TOut ''ex:a'' ''root:ex:a'')"
    by (simp add: expandedRoot_eq)
  have h2: "\<not> loaded (directionNode TOut ''ex:a'' ''root:ex:a'')"
    by (simp add: directionNode_def newNode_def)
  have h3: "(ntype (directionNode TOut ''ex:a'' ''root:ex:a'') = TOut \<and>
       thrown (?ds (Some (NamedNode (iri (directionNode TOut ''ex:a'' ''root:ex:a'')))) None None)
         = Some ''connection lost'') \<or>
     (ntype (directionNode TOut ''ex:a'' ''root:ex:a'') = TIn \<and>
       thrown (?ds None None (Some (NamedNode (iri (directionNode TOut ''ex:a'' ''root:ex:a'')))))
         = Some ''connection lost'') \<or>
     (ntype (directionNode TOut ''ex:a'' ''root:ex:a'') = TPredicate \<and>
       iri (directionNode TOut ''ex:a'' ''root:ex:a'') \<noteq> [] \<and>
       predicate (directionNode TOut ''ex:a'' ''root:ex:a'') = Some ''p'' \<and> ''p'' \<noteq> [] \<and>
       parentType (directionNode TOut ''ex:a'' ''root:ex:a'') = Some DirOut \<and>
       thrownWithin defaultLimit
         (?ds (Some (NamedNode (iri (directionNode TOut ''ex:a'' ''root:ex:a''))))
            (Some (NamedNode ''p'')) None) = Some ''connection lost'') \<or>
     (ntype (directionNode TOut ''ex:a'' ''root:ex:a'') = TPredicate \<and>
       iri (directionNode TOut ''ex:a'' ''root:ex:a'') \<noteq> [] \<and>
       predicate (directionNode TOut ''ex:a'' ''root:ex:a'') = Some ''p'' \<and> ''p'' \<noteq> [] \<and>
       parentType (directionNode TOut ''ex:a'' ''root:ex:a'') \<noteq> Some DirOut \<and>
       thrownWithin defaultLimit
         (?ds None (Some (NamedNode ''p''))
            (Some (NamedNode (iri (directionNode TOut ''ex:a'' ''root:ex:a''))))) = Some ''connection lost'')"
    by (simp add: directionNode_def newNode_def)
  from failed_query_commits_nothing [OF h1 h2 h3] h1 show ?thesis
    by (simp add: failingDataset_def)
qed


section \<open>Overlapping expansions of one node\<close>

text \<open>
  C5, at two overlapping expansions of the root \<open>ex:a\<close>. Both start from the map in which
  the root is unloaded. The first writes back; then the \<open>out\<close> node is expanded; then the
  second writes back. The updater of the general browser does not look at \<open>loaded\<close>: it
  sets the records of the children again, so the \<open>out\<close> node is unloaded once more and
  has lost its children, while the specialized traversal's updater returns the map it
  is given when the record is loaded.
\<close>

theorem late_write_back_overwrites_children:
  "startExpansion exampleDataset (rootNodes ''ex:a'') ''root:ex:a'' =
     Commit [(''root:ex:a->in:ex:a'', directionNode TIn ''ex:a'' ''root:ex:a''),
             (''root:ex:a->out:ex:a'', directionNode TOut ''ex:a'' ''root:ex:a'')]
            [''root:ex:a->in:ex:a'', ''root:ex:a->out:ex:a''] \<and>
   map_of expandedOut ''root:ex:a'' =
     Some ((newNode TRoot ''ex:a'')
             \<lparr>loaded := True, children := Some [''root:ex:a->in:ex:a'', ''root:ex:a->out:ex:a'']\<rparr>) \<and>
   map_of expandedOut ''root:ex:a->out:ex:a'' =
     Some ((directionNode TOut ''ex:a'' ''root:ex:a'')
             \<lparr>loaded := True,
              children := Some [''root:ex:a->out:ex:a->predicate:ex:a:ex:city'',
                                ''root:ex:a->out:ex:a->predicate:ex:a:ex:knows'',
                                ''root:ex:a->out:ex:a->predicate:ex:a:ex:name'',
                                ''root:ex:a->out:ex:a->predicate:ex:a:http://www.w3.org/2000/01/rdf-schema#label'']\<rparr>) \<and>
   map_of (snd (finishExpansion
                  (startExpansion exampleDataset (rootNodes ''ex:a'') ''root:ex:a'')
                  ''root:ex:a'' expandedOut)) ''root:ex:a->out:ex:a'' =
     Some (directionNode TOut ''ex:a'' ''root:ex:a'') \<and>
   snd (finishExpansion
          (startExpansion exampleDataset (rootNodes ''ex:a'') ''root:ex:a'')
          ''root:ex:a'' expandedOut) \<noteq> expandedOut \<and>
   specializedWriteBack ''ex:a'' None [] specializedExample = specializedExample"
  by code_simp


section \<open>Out-going predicate groups: the literal collapse\<close>

lemma loadNodeChildren_objects:
  assumes "map_of nodes nodeId = Some node" and "ntype node = TPredicate" and "\<not> loaded node"
    and "iri node \<noteq> []" and "predicate node = Some p" and "p \<noteq> []"
    and "parentType node = Some DirOut"
    and "loadObjects dataset (iri node) p defaultLimit = Inr objects"
  shows "loadNodeChildren dataset nodes nodeId =
     (SuccessfullyLoaded (length (snd (resolveObjects node nodeId objects))),
      writeBack (fst (resolveObjects node nodeId objects)) (snd (resolveObjects node nodeId objects))
        nodeId nodes)"
  using assms
  by (simp add: loadNodeChildren_def startExpansion_def finishExpansion_def resolveChildren_def
        split: prod.splits)

lemma resolveObjects_collapse:
  assumes "oi_isLiteral obj"
  shows "resolveObjects node nodeId [obj] =
     ([(nodeId, node\<lparr>loaded := True, singleLiteralValue := Some (oi_value obj),
                      objectInfo := Some [obj], children := Some []\<rparr>)], [])"
  using assms by (simp add: resolveObjects_def)

lemma addValueNodes_not_parent:
  "map_of (fst (addValueNodes val mk xs nodeId ([], []))) nodeId = None"
  by (simp add: addValueNodes_map_of find_getNodeId_parent)

lemma resolveObjects_literals:
  assumes "list_all oi_isLiteral objects" and "length objects > 1"
  shows "resolveObjects node nodeId objects =
     (AList.update nodeId (node\<lparr>objectInfo := Some objects\<rparr>)
        (fst (addValueNodes oi_value (literalObjectNode nodeId) objects nodeId ([], []))),
      map (\<lambda>obj. getNodeId TObject (oi_value obj) None (Some nodeId)) objects)"
proof -
  obtain nn chs where r: "addValueNodes oi_value (literalObjectNode nodeId) objects nodeId ([], []) = (nn, chs)"
    by (cases "addValueNodes oi_value (literalObjectNode nodeId) objects nodeId ([], [])")
  have "chs = map (\<lambda>obj. getNodeId TObject (oi_value obj) None (Some nodeId)) objects"
    using addValueNodes_children [of oi_value "literalObjectNode nodeId" objects nodeId "[]" "[]"] r
    by simp
  moreover have "map_of nn nodeId = None"
    using addValueNodes_not_parent [of oi_value "literalObjectNode nodeId" objects nodeId] r by simp
  ultimately show ?thesis
    using assms r by (simp add: resolveObjects_def)
qed

lemma resolveObjects_mixed:
  assumes "\<not> list_all oi_isLiteral objects"
  shows "resolveObjects node nodeId objects =
     (AList.update nodeId (node\<lparr>objectInfo := Some objects\<rparr>)
        (fst (addValueNodes oi_value (mixedObjectNode nodeId) objects nodeId ([], []))),
      map (\<lambda>obj. getNodeId TObject (oi_value obj) None (Some nodeId)) objects)"
proof -
  obtain nn chs where r: "addValueNodes oi_value (mixedObjectNode nodeId) objects nodeId ([], []) = (nn, chs)"
    by (cases "addValueNodes oi_value (mixedObjectNode nodeId) objects nodeId ([], [])")
  have "chs = map (\<lambda>obj. getNodeId TObject (oi_value obj) None (Some nodeId)) objects"
    using addValueNodes_children [of oi_value "mixedObjectNode nodeId" objects nodeId "[]" "[]"] r
    by simp
  moreover have "map_of nn nodeId = None"
    using addValueNodes_not_parent [of oi_value "mixedObjectNode nodeId" objects nodeId] r by simp
  ultimately show ?thesis
    using assms r by (simp add: resolveObjects_def)
qed

lemma map_of_writeBack_valueNodes:
  assumes "map_of nodes nodeId = Some node" and "singleLiteralValue node = None"
  shows "map_of (writeBack
            (AList.update nodeId (node\<lparr>objectInfo := info\<rparr>)
               (fst (addValueNodes val mk xs nodeId ([], []))))
            chs nodeId nodes) =
     (\<lambda>k. if k = nodeId
          then Some (node\<lparr>objectInfo := info, loaded := True, children := Some chs\<rparr>)
          else (case find (\<lambda>x. getNodeId TObject (val x) None (Some nodeId) = k) xs of
                  Some x \<Rightarrow> Some (mk x)
                | None \<Rightarrow> map_of nodes k))"
proof -
  let ?nn0 = "fst (addValueNodes val mk xs nodeId ([], []))"
  let ?nn = "AList.update nodeId (node\<lparr>objectInfo := info\<rparr>) ?nn0"
  have d: "distinct (map fst ?nn)"
    by (intro distinct_update addValueNodes_distinct) simp
  have self: "(map_of nodes ++ map_of ?nn) nodeId = Some (node\<lparr>objectInfo := info\<rparr>)"
    by (simp add: update_conv')
  have "map_of (writeBack ?nn chs nodeId nodes) =
          (map_of nodes ++ map_of ?nn)
            (nodeId \<mapsto> node\<lparr>objectInfo := info, loaded := True, children := Some chs\<rparr>)"
    unfolding map_of_writeBack [OF d] self using assms(2) by simp
  then show ?thesis
    by (auto simp: fun_eq_iff map_add_def update_conv' addValueNodes_map_of
          split: option.splits)
qed







lemma examplePredicateNode_simps:
  "ntype (examplePredicateNode p) = TPredicate" "\<not> loaded (examplePredicateNode p)"
  "singleLiteralValue (examplePredicateNode p) = None" "iri (examplePredicateNode p) = ''ex:a''"
  "predicate (examplePredicateNode p) = Some p" "parentType (examplePredicateNode p) = Some DirOut"
  by (simp_all add: examplePredicateNode_def newNode_def)




section \<open>Out-going predicate groups: the cap of 100\<close>

lemma decimal_nonempty: "decimal n \<noteq> []"
  by (subst decimal.simps) simp

lemma digit_inj: "m < 10 \<Longrightarrow> n < 10 \<Longrightarrow> digit m = digit n \<Longrightarrow> m = n"
  by (simp add: digit_def char_of_eq_iff take_bit_nat_eq_self)

lemma decimal_inj: "decimal m = decimal n \<Longrightarrow> m = n"
proof (induction m arbitrary: n rule: decimal.induct)
  case (1 m)
  show ?case
  proof (cases "m < 10")
    case True
    with "1.prems" have d: "decimal n = [digit m]"
      by (subst (asm) decimal.simps) simp
    have "n < 10"
    proof (rule ccontr)
      assume "\<not> n < 10"
      then have "decimal n = decimal (n div 10) @ [digit (n mod 10)]"
        by (subst decimal.simps) simp
      with d decimal_nonempty [of "n div 10"] show False by simp
    qed
    with d have "digit n = digit m"
      by (subst (asm) decimal.simps) simp
    with True \<open>n < 10\<close> show ?thesis by (simp add: digit_inj)
  next
    case False
    then have dm: "decimal m = decimal (m div 10) @ [digit (m mod 10)]"
      by (subst decimal.simps) simp
    have "\<not> n < 10"
    proof
      assume "n < 10"
      then have "decimal n = [digit n]" by (subst decimal.simps) simp
      with dm "1.prems" decimal_nonempty [of "m div 10"] show False by simp
    qed
    then have dn: "decimal n = decimal (n div 10) @ [digit (n mod 10)]"
      by (subst decimal.simps) simp
    from dm dn "1.prems" have e: "decimal (m div 10) = decimal (n div 10)"
        "digit (m mod 10) = digit (n mod 10)"
      by simp_all
    from "1.IH" [OF False e(1)] have "m div 10 = n div 10" .
    moreover from e(2) have "m mod 10 = n mod 10" by (simp add: digit_inj)
    ultimately show ?thesis by (metis div_mult_mod_eq)
  qed
qed

lemma manyQuads_facts:
  "length manyQuads = 150"
  "filter (matchesPattern (Some (NamedNode ''ex:a'')) (Some (NamedNode ''ex:p'')) None) manyQuads
     = manyQuads"
  "\<forall>q \<in> set manyQuads. termType (q_object q) = ''NamedNode''"
  "distinct (map q_object manyQuads)"
  by (auto simp: manyQuads_def matchesPattern_def matchesTerm_def distinct_map comp_def
        inj_on_def dest: decimal_inj)


lemma loadObjects_bound:
  "loadObjects dataset i p limit = Inr r \<Longrightarrow> length r \<le> limit"
  by (cases dataset) (auto simp: loadObjects_def dest: objectsLoop_bound)

lemma loadObjects_tripleSource:
  "loadObjects (Some (tripleSource qs)) i p limit =
     Inr (map objectInfoOf (filter retainedObject
            (take limit (filter (matchesPattern (Some (NamedNode i)) (Some (NamedNode p)) None) qs))))"
  by (simp add: loadObjects_def tripleSource_def objectsLoop_iterate retainedObject_def
        objectInfoOf_def cong: filter_cong)

lemma resolveObjects_other:
  assumes "\<not> list_all oi_isLiteral objects \<or> objects = []"
  shows "resolveObjects node nodeId objects =
     (AList.update nodeId (node\<lparr>objectInfo := Some objects\<rparr>)
        (fst (addValueNodes oi_value (mixedObjectNode nodeId) objects nodeId ([], []))),
      map (\<lambda>obj. getNodeId TObject (oi_value obj) None (Some nodeId)) objects)"
proof (cases "objects = []")
  case True
  then show ?thesis by (simp add: resolveObjects_def)
next
  case False
  with assms have "\<not> list_all oi_isLiteral objects" by simp
  then show ?thesis by (rule resolveObjects_mixed)
qed

lemma loadNodeChildren_out_objects:
  assumes "map_of nodes nodeId = Some node" and "ntype node = TPredicate" and "\<not> loaded node"
    and "singleLiteralValue node = None"
    and "iri node \<noteq> []" and "predicate node = Some p" and "p \<noteq> []"
    and "parentType node = Some DirOut"
    and "loadObjects dataset (iri node) p defaultLimit = Inr objects"
    and "\<not> list_all oi_isLiteral objects \<or> objects = []"
  shows "fst (loadNodeChildren dataset nodes nodeId) = SuccessfullyLoaded (length objects) \<and>
     map_of (snd (loadNodeChildren dataset nodes nodeId)) =
       (\<lambda>k. if k = nodeId
            then Some (node\<lparr>objectInfo := Some objects, loaded := True,
                             children := Some (map (\<lambda>obj. getNodeId TObject (oi_value obj) None
                                                             (Some nodeId)) objects)\<rparr>)
            else (case find (\<lambda>x. getNodeId TObject (oi_value x) None (Some nodeId) = k) objects of
                    Some x \<Rightarrow> Some (mixedObjectNode nodeId x)
                  | None \<Rightarrow> map_of nodes k))"
proof -
  note run = loadNodeChildren_objects [OF assms(1,2,3,5,6,7,8,9)]
  note ro = resolveObjects_other [OF assms(10), of node nodeId]
  have "map_of (snd (loadNodeChildren dataset nodes nodeId)) =
       (\<lambda>k. if k = nodeId
            then Some (node\<lparr>objectInfo := Some objects, loaded := True,
                             children := Some (map (\<lambda>obj. getNodeId TObject (oi_value obj) None
                                                             (Some nodeId)) objects)\<rparr>)
            else (case find (\<lambda>x. getNodeId TObject (oi_value x) None (Some nodeId) = k) objects of
                    Some x \<Rightarrow> Some (mixedObjectNode nodeId x)
                  | None \<Rightarrow> map_of nodes k))"
    unfolding run snd_conv ro fst_conv
    using assms(1,4) by (rule map_of_writeBack_valueNodes)
  then show ?thesis by (simp add: run ro)
qed

lemma loadNodeChildren_out_bound:
  assumes "map_of nodes nodeId = Some node" and "ntype node = TPredicate" and "\<not> loaded node"
    and "singleLiteralValue node = None" and "parentType node = Some DirOut"
    and "fst (loadNodeChildren dataset nodes nodeId) = SuccessfullyLoaded n"
  shows "n \<le> 100 \<and>
         (\<exists>node' cs. map_of (snd (loadNodeChildren dataset nodes nodeId)) nodeId = Some node' \<and>
                      children node' = Some cs \<and> length cs = n)"
proof (cases "\<exists>p. iri node \<noteq> [] \<and> predicate node = Some p \<and> p \<noteq> []")
  case False
  then have "resolveChildren dataset node nodeId = Inr ([], [])"
    using assms(2) by (auto simp: resolveChildren_def split: option.splits)
  then have "loadNodeChildren dataset nodes nodeId =
     (SuccessfullyLoaded 0, AList.update nodeId (node\<lparr>loaded := True, children := Some []\<rparr>) nodes)"
    using assms(1,3,4)
    by (simp add: loadNodeChildren_def startExpansion_def finishExpansion_def writeBack_def)
  with assms(6) show ?thesis by (auto simp: update_conv')
next
  case True
  then obtain p where g: "iri node \<noteq> []" "predicate node = Some p" "p \<noteq> []" by blast
  show ?thesis
  proof (cases "loadObjects dataset (iri node) p defaultLimit")
    case (Inl e)
    then have "resolveChildren dataset node nodeId = Inl e"
      using assms(2,5) g by (simp add: resolveChildren_def)
    then have "loadNodeChildren dataset nodes nodeId = (LoadError e, nodes)"
      using assms(1,3) by (simp add: loadNodeChildren_def startExpansion_def finishExpansion_def)
    with assms(6) show ?thesis by simp
  next
    case (Inr objects)
    then have len: "length objects \<le> 100"
      using loadObjects_bound [of dataset "iri node" p defaultLimit objects]
      by (simp add: defaultLimit_def)
    note run = loadNodeChildren_objects [OF assms(1,2,3) g assms(5) Inr]
    show ?thesis
    proof (cases "list_all oi_isLiteral objects \<and> objects \<noteq> []")
      case False
      then have "\<not> list_all oi_isLiteral objects \<or> objects = []" by blast
      from loadNodeChildren_out_objects [OF assms(1,2,3,4) g assms(5) Inr this] assms(6) len
      show ?thesis by simp
    next
      case True
      show ?thesis
      proof (cases "length objects = 1")
        case one: True
        then obtain obj where o: "objects = [obj]"
          by (cases objects) auto
        with True have "oi_isLiteral obj" by simp
        then have "resolveObjects node nodeId objects =
           ([(nodeId, node\<lparr>loaded := True, singleLiteralValue := Some (oi_value obj),
                            objectInfo := Some [obj], children := Some []\<rparr>)], [])"
          unfolding o by (rule resolveObjects_collapse)
        then have "loadNodeChildren dataset nodes nodeId =
                 (SuccessfullyLoaded 0,
                  AList.update nodeId
                    (node\<lparr>loaded := True, singleLiteralValue := Some (oi_value obj),
                          objectInfo := Some [obj], children := Some []\<rparr>) nodes)"
          by (simp add: run writeBack_def update_conv')
        with assms(6) show ?thesis by (auto simp: update_conv')
      next
        case False
        with True have "length objects > 1"
          by (cases objects) auto
        note ro = resolveObjects_literals [OF True [THEN conjunct1] this, of node nodeId]
        have "map_of (snd (loadNodeChildren dataset nodes nodeId)) nodeId =
           Some (node\<lparr>objectInfo := Some objects, loaded := True,
                       children := Some (map (\<lambda>obj. getNodeId TObject (oi_value obj) None
                                                       (Some nodeId)) objects)\<rparr>)"
          unfolding run snd_conv ro fst_conv
          by (simp add: map_of_writeBack_valueNodes [OF assms(1,4)])
        moreover have "fst (loadNodeChildren dataset nodes nodeId) = SuccessfullyLoaded (length objects)"
          by (simp add: run ro)
        ultimately show ?thesis using assms(6) len by simp
      qed
    qed
  qed
qed


lemma find_SomeD: "find P xs = Some x \<Longrightarrow> x \<in> set xs \<and> P x"
  by (induction xs) (auto split: if_splits)

lemma named_term: "termType t = ''NamedNode'' \<Longrightarrow> t = NamedNode (termValue t)"
  by (cases t) simp_all

lemma named_object_ids_distinct:
  assumes "\<forall>q \<in> set ms. termType (q_object q) = ''NamedNode''" and "distinct (map q_object ms)"
  shows "distinct (map (\<lambda>q. getNodeId TObject (termValue (q_object q)) None (Some nodeId)) ms)"
proof -
  from assms(2) have d: "distinct ms" and i: "inj_on q_object (set ms)"
    by (simp_all add: distinct_map)
  have "inj_on (\<lambda>q. getNodeId TObject (termValue (q_object q)) None (Some nodeId)) (set ms)"
  proof (rule inj_onI)
    fix q q'
    assume q: "q \<in> set ms" "q' \<in> set ms"
      and "getNodeId TObject (termValue (q_object q)) None (Some nodeId) =
           getNodeId TObject (termValue (q_object q')) None (Some nodeId)"
    then have "termValue (q_object q) = termValue (q_object q')"
      by (simp add: getNodeId_object_inj)
    moreover from q assms(1) have "q_object q = NamedNode (termValue (q_object q))"
        "q_object q' = NamedNode (termValue (q_object q'))"
      by (simp_all add: named_term)
    ultimately have "q_object q = q_object q'" by simp
    with i q show "q = q'" by (simp add: inj_on_def)
  qed
  with d show ?thesis by (simp add: distinct_map)
qed

lemma out_objects_cap:
  assumes "map_of nodes nodeId = Some node" and "ntype node = TPredicate" and "\<not> loaded node"
    and "singleLiteralValue node = None" and "parentType node = Some DirOut"
  shows "(\<forall>n. fst (loadNodeChildren dataset nodes nodeId) = SuccessfullyLoaded n \<longrightarrow>
            n \<le> 100 \<and>
            (\<exists>node' cs. map_of (snd (loadNodeChildren dataset nodes nodeId)) nodeId = Some node' \<and>
                         children node' = Some cs \<and> length cs = n)) \<and>
         (\<forall>p qs ms.
            iri node \<noteq> [] \<and> predicate node = Some p \<and> p \<noteq> [] \<and>
            ms = filter (matchesPattern (Some (NamedNode (iri node))) (Some (NamedNode p)) None) qs \<and>
            length ms = 150 \<and> (\<forall>q \<in> set ms. termType (q_object q) = ''NamedNode'') \<and>
            distinct (map q_object ms) \<longrightarrow>
            (let r = loadNodeChildren (Some (tripleSource qs)) nodes nodeId;
                 ids = map (\<lambda>q. getNodeId TObject (termValue (q_object q)) None (Some nodeId))
                         (take 100 ms)
             in fst r = SuccessfullyLoaded 100 \<and>
                (\<exists>node'. map_of (snd r) nodeId = Some node' \<and> loaded node' \<and>
                          children node' = Some ids) \<and>
                length ids = 100 \<and> distinct ids \<and>
                (\<forall>q \<in> set (take 100 ms).
                   map_of (snd r) (getNodeId TObject (termValue (q_object q)) None (Some nodeId)) =
                     Some (mixedObjectNode nodeId
                             \<lparr>oi_value = termValue (q_object q), oi_isLiteral = False\<rparr>)) \<and>
                (\<forall>q \<in> set (drop 100 ms).
                   map_of (snd r) (getNodeId TObject (termValue (q_object q)) None (Some nodeId)) =
                   map_of nodes (getNodeId TObject (termValue (q_object q)) None (Some nodeId)))))"
proof -
  let ?oid = "\<lambda>q. getNodeId TObject (termValue (q_object q)) None (Some nodeId)"
  have bound: "n \<le> 100 \<and>
            (\<exists>node' cs. map_of (snd (loadNodeChildren dataset nodes nodeId)) nodeId = Some node' \<and>
                         children node' = Some cs \<and> length cs = n)"
    if "fst (loadNodeChildren dataset nodes nodeId) = SuccessfullyLoaded n" for n
    using assms that by (rule loadNodeChildren_out_bound)
  have many: "let r = loadNodeChildren (Some (tripleSource qs)) nodes nodeId;
                 ids = map ?oid (take 100 ms)
             in fst r = SuccessfullyLoaded 100 \<and>
                (\<exists>node'. map_of (snd r) nodeId = Some node' \<and> loaded node' \<and>
                          children node' = Some ids) \<and>
                length ids = 100 \<and> distinct ids \<and>
                (\<forall>q \<in> set (take 100 ms).
                   map_of (snd r) (?oid q) =
                     Some (mixedObjectNode nodeId
                             \<lparr>oi_value = termValue (q_object q), oi_isLiteral = False\<rparr>)) \<and>
                (\<forall>q \<in> set (drop 100 ms). map_of (snd r) (?oid q) = map_of nodes (?oid q))"
    if g: "iri node \<noteq> []" "predicate node = Some p" "p \<noteq> []"
      and ms: "ms = filter (matchesPattern (Some (NamedNode (iri node))) (Some (NamedNode p)) None) qs"
      and len: "length ms = 150"
      and named: "\<forall>q \<in> set ms. termType (q_object q) = ''NamedNode''"
      and dist: "distinct (map q_object ms)"
    for p qs ms
  proof -
    let ?r = "loadNodeChildren (Some (tripleSource qs)) nodes nodeId"
    let ?first = "take 100 ms"
    let ?objs = "map objectInfoOf ?first"
    have sub: "set ?first \<subseteq> set ms" by (rule set_take_subset)
    with named have named': "\<forall>q \<in> set ?first. termType (q_object q) = ''NamedNode''"
      by blast
    then have "filter retainedObject ?first = ?first"
      by (simp add: retainedObject_def)
    then have lo: "loadObjects (Some (tripleSource qs)) (iri node) p defaultLimit = Inr ?objs"
      by (simp add: loadObjects_tripleSource defaultLimit_def ms)
    have info: "objectInfoOf q = \<lparr>oi_value = termValue (q_object q), oi_isLiteral = False\<rparr>"
      if "q \<in> set ?first" for q
      using named' that by (simp add: objectInfoOf_def)
    have l100: "length ?first = 100" using len by simp
    then obtain q0 where q0: "q0 \<in> set ?first"
      by (cases ?first) auto
    then have "\<not> oi_isLiteral (objectInfoOf q0)" by (simp add: info)
    with q0 have nl: "\<not> list_all oi_isLiteral ?objs \<or> ?objs = []"
      by (auto simp: list_all_iff)
    note run = loadNodeChildren_out_objects [OF assms(1,2,3,4) g assms(5) lo nl]
    have ids: "map (\<lambda>obj. getNodeId TObject (oi_value obj) None (Some nodeId)) ?objs = map ?oid ?first"
      by (simp add: objectInfoOf_def comp_def)
    have dall: "distinct (map ?oid ms)"
      using named dist by (rule named_object_ids_distinct)
    then have "distinct (map ?oid (take 100 ms @ drop 100 ms))" by simp
    then have dfirst: "distinct (map ?oid ?first)"
      and disj: "set (map ?oid ?first) \<inter> set (map ?oid (drop 100 ms)) = {}"
      unfolding map_append distinct_append by blast+
    have self: "map_of (snd ?r) nodeId =
        Some (node\<lparr>objectInfo := Some ?objs, loaded := True, children := Some (map ?oid ?first)\<rparr>)"
      by (simp add: run [unfolded ids, THEN conjunct2])
    have kept: "map_of (snd ?r) (?oid q) =
        Some (mixedObjectNode nodeId \<lparr>oi_value = termValue (q_object q), oi_isLiteral = False\<rparr>)"
      if q: "q \<in> set ?first" for q
    proof -
      let ?P = "\<lambda>x. getNodeId TObject (oi_value x) None (Some nodeId) = ?oid q"
      have "?P (objectInfoOf q)" by (simp add: objectInfoOf_def)
      with q obtain x where f: "find ?P ?objs = Some x"
        by (cases "find ?P ?objs") (auto simp: find_None_iff)
      then have x: "x \<in> set ?objs" "?P x"
        by (auto dest: find_SomeD)
      then obtain q' where q': "q' \<in> set ?first" "x = objectInfoOf q'" by auto
      with x(2) have "?oid q' = ?oid q" by (simp add: objectInfoOf_def)
      with dfirst q q' have "q' = q"
        by (auto simp: distinct_map inj_on_def)
      with q' f info [OF q] have "find ?P ?objs =
          Some \<lparr>oi_value = termValue (q_object q), oi_isLiteral = False\<rparr>"
        by simp
      then show ?thesis
        by (simp add: run [THEN conjunct2] getNodeId_not_parent)
    qed
    have dropped: "map_of (snd ?r) (?oid q) = map_of nodes (?oid q)"
      if q: "q \<in> set (drop 100 ms)" for q
    proof -
      from q disj have n: "?oid q \<notin> set (map ?oid ?first)" by auto
      have "getNodeId TObject (oi_value x) None (Some nodeId) \<noteq> ?oid q" if "x \<in> set ?objs" for x
      proof
        assume e: "getNodeId TObject (oi_value x) None (Some nodeId) = ?oid q"
        from that obtain q' where q': "q' \<in> set ?first" "x = objectInfoOf q'" by auto
        with e have eq: "?oid q' = ?oid q" by (simp add: objectInfoOf_def)
        from q'(1) have "?oid q' \<in> set (map ?oid ?first)" by simp
        then have "?oid q \<in> set (map ?oid ?first)" unfolding eq .
        with n show False by contradiction
      qed
      then have "find (\<lambda>x. getNodeId TObject (oi_value x) None (Some nodeId) = ?oid q) ?objs = None"
        unfolding find_None_iff by blast
      then show ?thesis
        by (simp add: run [THEN conjunct2] getNodeId_not_parent)
    qed
    have "fst ?r = SuccessfullyLoaded 100"
      using run [THEN conjunct1] l100 by simp
    moreover have "\<exists>node'. map_of (snd ?r) nodeId = Some node' \<and> loaded node' \<and>
                          children node' = Some (map ?oid ?first)"
      using self by simp
    moreover have "length (map ?oid ?first) = 100" using l100 by simp
    ultimately show ?thesis
      unfolding Let_def using dfirst kept dropped by blast
  qed
  show ?thesis using bound many by blast
qed


lemma manyNodes_facts:
  "map_of manyNodes (examplePredicateId ''ex:p'') = Some (examplePredicateNode ''ex:p'')"
  by (simp add: manyNodes_def)

lemma manyQuads_members:
  "Quad (NamedNode ''ex:a'') (NamedNode ''ex:p'') (NamedNode ''ex:v1'') \<in> set (take 100 manyQuads)"
  "Quad (NamedNode ''ex:a'') (NamedNode ''ex:p'') (NamedNode ''ex:v100'') \<in> set (take 100 manyQuads)"
  "Quad (NamedNode ''ex:a'') (NamedNode ''ex:p'') (NamedNode ''ex:v101'') \<in> set (drop 100 manyQuads)"
proof -
  let ?f = "\<lambda>k. Quad (NamedNode ''ex:a'') (NamedNode ''ex:p'') (NamedNode (''ex:v'' @ decimal k))"
  have d: "decimal 1 = ''1''" "decimal 100 = ''100''" "decimal 101 = ''101''"
    by code_simp+
  have t: "take 100 manyQuads = map ?f [1..<101]" and r: "drop 100 manyQuads = map ?f [101..<151]"
    by (simp_all add: manyQuads_def take_map drop_map)
  have "?f 1 \<in> set (map ?f [1..<101])" "?f 100 \<in> set (map ?f [1..<101])"
      "?f 101 \<in> set (map ?f [101..<151])"
    by simp_all
  then show
    "Quad (NamedNode ''ex:a'') (NamedNode ''ex:p'') (NamedNode ''ex:v1'') \<in> set (take 100 manyQuads)"
    "Quad (NamedNode ''ex:a'') (NamedNode ''ex:p'') (NamedNode ''ex:v100'') \<in> set (take 100 manyQuads)"
    "Quad (NamedNode ''ex:a'') (NamedNode ''ex:p'') (NamedNode ''ex:v101'') \<in> set (drop 100 manyQuads)"
    unfolding t r d by simp_all
qed

text \<open>
  C4: the expansion of an out-going predicate node reports, and stores, at most 100
  children, whatever the dataset. Over a triple source in which the predicate has 150
  objects, all named resources, it reports success with 100 children and nothing else:
  the children are the ids of the first 100 objects in the order of the source, 100
  different ids; each is the key of a value node, that is an unloaded record of type
  \<open>object\<close> whose IRI is the object, marked as not a literal, with the predicate node as
  parent; and no record is made for the other 50 objects.
\<close>

theorem out_objects_capped_at_100:
  assumes "map_of nodes nodeId = Some node" and "ntype node = TPredicate" and "\<not> loaded node"
    and "singleLiteralValue node = None" and "parentType node = Some DirOut"
  shows "(\<forall>n. fst (loadNodeChildren dataset nodes nodeId) = SuccessfullyLoaded n \<longrightarrow>
            n \<le> 100 \<and>
            (\<exists>node' cs. map_of (snd (loadNodeChildren dataset nodes nodeId)) nodeId = Some node' \<and>
                         children node' = Some cs \<and> length cs = n)) \<and>
         (\<forall>p qs ms.
            iri node \<noteq> [] \<and> predicate node = Some p \<and> p \<noteq> [] \<and>
            ms = filter (matchesPattern (Some (NamedNode (iri node))) (Some (NamedNode p)) None) qs \<and>
            length ms = 150 \<and> (\<forall>q \<in> set ms. termType (q_object q) = ''NamedNode'') \<and>
            distinct (map q_object ms) \<longrightarrow>
            (let r = loadNodeChildren (Some (tripleSource qs)) nodes nodeId;
                 ids = map (\<lambda>q. getNodeId TObject (termValue (q_object q)) None (Some nodeId))
                         (take 100 ms)
             in fst r = SuccessfullyLoaded 100 \<and>
                (\<exists>node'. map_of (snd r) nodeId = Some node' \<and> loaded node' \<and>
                          children node' = Some ids) \<and>
                length ids = 100 \<and> distinct ids \<and>
                (\<forall>q \<in> set (take 100 ms).
                   map_of (snd r) (getNodeId TObject (termValue (q_object q)) None (Some nodeId)) =
                     Some \<lparr>ntype = TObject, iri = termValue (q_object q), predicate = None,
                           loaded = False, children = None, parentType = None,
                           isLiteral = Some False, literalValue = None, objectInfo = None,
                           singleLiteralValue = None, parentNodeId = Some nodeId\<rparr>) \<and>
                (\<forall>q \<in> set (drop 100 ms).
                   map_of (snd r) (getNodeId TObject (termValue (q_object q)) None (Some nodeId)) =
                   map_of nodes (getNodeId TObject (termValue (q_object q)) None (Some nodeId)))))"
proof -
  have value_node:
    "mixedObjectNode nodeId \<lparr>oi_value = v, oi_isLiteral = False\<rparr> =
       \<lparr>ntype = TObject, iri = v, predicate = None, loaded = False, children = None,
        parentType = None, isLiteral = Some False, literalValue = None, objectInfo = None,
        singleLiteralValue = None, parentNodeId = Some nodeId\<rparr>" for v
    by (simp add: mixedObjectNode_def newNode_def)
  show ?thesis
    using out_objects_cap [OF assms, of dataset] unfolding value_node .
qed

theorem out_objects_capped_at_100_witness:
  "map_of manyNodes (examplePredicateId ''ex:p'') = Some (examplePredicateNode ''ex:p'') \<and>
   length (filter (matchesPattern (Some (NamedNode ''ex:a'')) (Some (NamedNode ''ex:p'')) None)
             manyQuads) = 150 \<and>
   fst (loadNodeChildren (Some (tripleSource manyQuads)) manyNodes (examplePredicateId ''ex:p''))
     = SuccessfullyLoaded 100 \<and>
   (\<exists>node' cs.
      map_of (snd (loadNodeChildren (Some (tripleSource manyQuads)) manyNodes
                     (examplePredicateId ''ex:p''))) (examplePredicateId ''ex:p'') = Some node' \<and>
      children node' = Some cs \<and> length cs = 100) \<and>
   map_of (snd (loadNodeChildren (Some (tripleSource manyQuads)) manyNodes
                  (examplePredicateId ''ex:p'')))
       (getNodeId TObject ''ex:v1'' None (Some (examplePredicateId ''ex:p''))) =
     Some \<lparr>ntype = TObject, iri = ''ex:v1'', predicate = None, loaded = False, children = None,
           parentType = None, isLiteral = Some False, literalValue = None, objectInfo = None,
           singleLiteralValue = None, parentNodeId = Some (examplePredicateId ''ex:p'')\<rparr> \<and>
   map_of (snd (loadNodeChildren (Some (tripleSource manyQuads)) manyNodes
                  (examplePredicateId ''ex:p'')))
       (getNodeId TObject ''ex:v100'' None (Some (examplePredicateId ''ex:p''))) =
     Some \<lparr>ntype = TObject, iri = ''ex:v100'', predicate = None, loaded = False, children = None,
           parentType = None, isLiteral = Some False, literalValue = None, objectInfo = None,
           singleLiteralValue = None, parentNodeId = Some (examplePredicateId ''ex:p'')\<rparr> \<and>
   map_of (snd (loadNodeChildren (Some (tripleSource manyQuads)) manyNodes
                  (examplePredicateId ''ex:p'')))
       (getNodeId TObject ''ex:v101'' None (Some (examplePredicateId ''ex:p''))) =
     map_of manyNodes (getNodeId TObject ''ex:v101'' None (Some (examplePredicateId ''ex:p'')))"
proof -
  let ?r = "loadNodeChildren (Some (tripleSource manyQuads)) manyNodes (examplePredicateId ''ex:p'')"
  let ?oid = "\<lambda>q. getNodeId TObject (termValue (q_object q)) None (Some (examplePredicateId ''ex:p''))"
  note t = out_objects_capped_at_100
      [OF manyNodes_facts examplePredicateNode_simps(1,2,3,6), of "Some (tripleSource manyQuads)"]
  have pre: "iri (examplePredicateNode ''ex:p'') \<noteq> [] \<and>
      predicate (examplePredicateNode ''ex:p'') = Some ''ex:p'' \<and> ''ex:p'' \<noteq> [] \<and>
      manyQuads = filter (matchesPattern (Some (NamedNode (iri (examplePredicateNode ''ex:p''))))
                            (Some (NamedNode ''ex:p'')) None) manyQuads \<and>
      length manyQuads = 150 \<and> (\<forall>q \<in> set manyQuads. termType (q_object q) = ''NamedNode'') \<and>
      distinct (map q_object manyQuads)"
    using manyQuads_facts by (simp add: examplePredicateNode_simps)
  note many = t [THEN conjunct2, rule_format, OF pre, unfolded Let_def]
  from many have b: "fst ?r = SuccessfullyLoaded 100"
    by blast
  from many have kept: "\<forall>q \<in> set (take 100 manyQuads).
      map_of (snd ?r) (?oid q) =
        Some \<lparr>ntype = TObject, iri = termValue (q_object q), predicate = None,
              loaded = False, children = None, parentType = None,
              isLiteral = Some False, literalValue = None, objectInfo = None,
              singleLiteralValue = None, parentNodeId = Some (examplePredicateId ''ex:p'')\<rparr>"
    and dropped: "\<forall>q \<in> set (drop 100 manyQuads).
      map_of (snd ?r) (?oid q) = map_of manyNodes (?oid q)"
    by blast+
  from kept [rule_format, OF manyQuads_members(1)] kept [rule_format, OF manyQuads_members(2)]
    dropped [rule_format, OF manyQuads_members(3)]
  have c: "map_of (snd ?r) (getNodeId TObject ''ex:v1'' None (Some (examplePredicateId ''ex:p''))) =
     Some \<lparr>ntype = TObject, iri = ''ex:v1'', predicate = None, loaded = False, children = None,
           parentType = None, isLiteral = Some False, literalValue = None, objectInfo = None,
           singleLiteralValue = None, parentNodeId = Some (examplePredicateId ''ex:p'')\<rparr>"
    "map_of (snd ?r) (getNodeId TObject ''ex:v100'' None (Some (examplePredicateId ''ex:p''))) =
     Some \<lparr>ntype = TObject, iri = ''ex:v100'', predicate = None, loaded = False, children = None,
           parentType = None, isLiteral = Some False, literalValue = None, objectInfo = None,
           singleLiteralValue = None, parentNodeId = Some (examplePredicateId ''ex:p'')\<rparr>"
    "map_of (snd ?r) (getNodeId TObject ''ex:v101'' None (Some (examplePredicateId ''ex:p''))) =
     map_of manyNodes (getNodeId TObject ''ex:v101'' None (Some (examplePredicateId ''ex:p'')))"
    by simp_all
  from t [THEN conjunct1, rule_format, OF b]
  have a: "\<exists>node' cs. map_of (snd ?r) (examplePredicateId ''ex:p'') = Some node' \<and>
      children node' = Some cs \<and> length cs = 100"
    by blast
  have l: "length (filter (matchesPattern (Some (NamedNode ''ex:a'')) (Some (NamedNode ''ex:p'')) None)
             manyQuads) = 150"
    by (simp add: manyQuads_facts(1,2))
  from manyNodes_facts l b a c show ?thesis by (intro conjI)
qed

lemma cappedQuads_facts:
  "filter (matchesPattern (Some (NamedNode ''ex:a'')) (Some (NamedNode ''ex:p'')) None) cappedQuads
     = cappedQuads"
  "filter retainedObject cappedQuads = manyQuads"
  "filter retainedObject (take 100 cappedQuads) = take 99 manyQuads"
proof -
  show "filter (matchesPattern (Some (NamedNode ''ex:a'')) (Some (NamedNode ''ex:p'')) None) cappedQuads
     = cappedQuads"
    by (simp add: cappedQuads_def manyQuads_facts(2)) (simp add: matchesPattern_def matchesTerm_def)
  have r: "filter retainedObject xs = xs" if "set xs \<subseteq> set manyQuads" for xs
    using that manyQuads_facts(3) by (auto simp: retainedObject_def filter_id_conv)
  show "filter retainedObject cappedQuads = manyQuads"
    by (simp add: cappedQuads_def r) (simp add: retainedObject_def)
  have "take 100 cappedQuads = Quad (NamedNode ''ex:a'') (NamedNode ''ex:p'') (BlankNode ''b0'')
          # take 99 manyQuads"
    by (simp add: cappedQuads_def)
  then show "filter retainedObject (take 100 cappedQuads) = take 99 manyQuads"
    by (simp add: r set_take_subset) (simp add: retainedObject_def)
qed

text \<open>
  C9: the loop of \<open>loadObjects\<close> takes the first \<open>limit\<close> matched triples and then keeps
  the named resources and literals among them, so a discarded object uses up a place.
  With one blank-node object before the 150 named resources of \<open>ex:p\<close>, 150 matched
  objects are retainable and the expansion of the predicate node loads 99 children.
\<close>

theorem cap_counts_discarded_objects:
  "loadObjects (Some (tripleSource qs)) i p limit =
     Inr (map objectInfoOf (filter retainedObject
            (take limit (filter (matchesPattern (Some (NamedNode i)) (Some (NamedNode p)) None) qs)))) \<and>
   length (filter retainedObject
             (filter (matchesPattern (Some (NamedNode ''ex:a'')) (Some (NamedNode ''ex:p'')) None)
                cappedQuads)) = 150 \<and>
   fst (loadNodeChildren (Some (tripleSource cappedQuads)) manyNodes (examplePredicateId ''ex:p''))
     = SuccessfullyLoaded 99 \<and>
   (\<exists>node' cs.
      map_of (snd (loadNodeChildren (Some (tripleSource cappedQuads)) manyNodes
                     (examplePredicateId ''ex:p''))) (examplePredicateId ''ex:p'') = Some node' \<and>
      children node' = Some cs \<and> length cs = 99)"
proof -
  let ?objs = "map objectInfoOf (take 99 manyQuads)"
  have lo: "loadObjects (Some (tripleSource cappedQuads)) (iri (examplePredicateNode ''ex:p''))
              ''ex:p'' defaultLimit = Inr ?objs"
    by (simp add: loadObjects_tripleSource examplePredicateNode_simps cappedQuads_facts
          defaultLimit_def)
  have len: "length ?objs = 99"
    by (simp add: manyQuads_facts(1))
  then obtain q0 where q0: "q0 \<in> set (take 99 manyQuads)"
    by (cases "take 99 manyQuads") auto
  then have "q0 \<in> set manyQuads" by (rule in_set_takeD)
  with manyQuads_facts(3) have "\<not> oi_isLiteral (objectInfoOf q0)"
    by (simp add: objectInfoOf_def)
  with q0 have nl: "\<not> list_all oi_isLiteral ?objs \<or> ?objs = []"
    by (auto simp: list_all_iff)
  have ne: "iri (examplePredicateNode ''ex:p'') \<noteq> []" "''ex:p'' \<noteq> []"
    by (simp_all add: examplePredicateNode_simps)
  note run = loadNodeChildren_out_objects
      [OF manyNodes_facts examplePredicateNode_simps(1,2,3) ne(1)
          examplePredicateNode_simps(5) ne(2) examplePredicateNode_simps(6) lo nl]
  have "fst (loadNodeChildren (Some (tripleSource cappedQuads)) manyNodes (examplePredicateId ''ex:p''))
          = SuccessfullyLoaded 99"
    using run [THEN conjunct1] len by simp
  moreover have "\<exists>node' cs.
      map_of (snd (loadNodeChildren (Some (tripleSource cappedQuads)) manyNodes
                     (examplePredicateId ''ex:p''))) (examplePredicateId ''ex:p'') = Some node' \<and>
      children node' = Some cs \<and> length cs = 99"
    using len by (simp add: run [THEN conjunct2])
  moreover have "length (filter retainedObject
             (filter (matchesPattern (Some (NamedNode ''ex:a'')) (Some (NamedNode ''ex:p'')) None)
                cappedQuads)) = 150"
    by (simp add: cappedQuads_facts manyQuads_facts(1))
  ultimately show ?thesis
    by (simp add: loadObjects_tripleSource)
qed


section \<open>Specialized traversal: one record per IRI\<close>

lemma set_update_cases:
  "kv \<in> set (AList.update k v al) \<Longrightarrow> kv = (k, v) \<or> kv \<in> set al"
  by (induction al) (auto split: if_splits)

lemma one_entry_per_key:
  "distinct (map fst al) \<Longrightarrow> k \<in> fst ` set al \<Longrightarrow> length (filter (\<lambda>kn. fst kn = k) al) = 1"
proof (induction al)
  case Nil
  then show ?case by simp
next
  case (Cons a al)
  show ?case
  proof (cases "fst a = k")
    case True
    from Cons.prems(1) have "fst a \<notin> fst ` set al" by simp
    then have "\<forall>x \<in> set al. fst x \<noteq> k"
      unfolding True by (metis imageI)
    then have "filter (\<lambda>kn. fst kn = k) al = []"
      by (simp add: filter_empty_conv)
    with True show ?thesis by simp
  next
    case False
    with Cons show ?thesis by auto
  qed
qed

lemma one_entry_after_update:
  "distinct (map fst al) \<Longrightarrow> length (filter (\<lambda>kn. fst kn = k) (AList.update k v al)) = 1"
  by (rule one_entry_per_key) (simp_all add: distinct_update dom_update)

lemma keyedByIri_update:
  "keyedByIri nodes \<Longrightarrow> sn_iri v = k \<Longrightarrow> keyedByIri (AList.update k v nodes)"
  by (auto simp: keyedByIri_def distinct_update list_all_iff dest: set_update_cases)

lemma keyedByIri_existing:
  "keyedByIri nodes \<Longrightarrow> map_of nodes k = Some n \<Longrightarrow> sn_iri n = k"
  by (auto simp: keyedByIri_def list_all_iff dest: map_of_SomeD)

lemma keyedByIri_writeBack:
  "keyedByIri nodes \<Longrightarrow> keyedByIri (specializedWriteBack i lbl related nodes)"
  by (auto simp: specializedWriteBack_def keyedByIri_update split: option.splits)

lemma keyedByIri_merge:
  "keyedByIri nodes \<Longrightarrow> keyedByIri (mergeChildLabels pairs nodes)"
proof (induction pairs arbitrary: nodes)
  case Nil
  then show ?case by simp
next
  case (Cons cl pairs)
  obtain c l where cl: "cl = (c, l)" by (cases cl)
  show ?case
  proof (cases "map_of nodes c")
    case None
    with Cons cl show ?thesis by (simp add: keyedByIri_update)
  next
    case (Some existing)
    with Cons.prems have "sn_iri (existing\<lparr>sn_label := l\<rparr>) = c"
      by (simp add: keyedByIri_existing)
    with Cons Some cl show ?thesis by (simp add: keyedByIri_update)
  qed
qed

lemma reachable_keyedByIri:
  "nodes \<in> reachableNodes s \<Longrightarrow> keyedByIri nodes"
proof (induction rule: reachableNodes.induct)
  case start
  show ?case by (simp add: keyedByIri_def startNodes_def)
next
  case (writeBack nodes i lbl relatedNodes)
  then show ?case by (simp add: keyedByIri_writeBack)
next
  case (labels nodes pairs)
  then show ?case by (simp add: keyedByIri_merge)
qed

lemma loadNode_reachable:
  assumes "nodes \<in> reachableNodes s"
  shows "loadNode dataset predicateIri direction nodes i \<in> reachableNodes s"
proof -
  have w: "specializedWriteBack i lbl related nodes \<in> reachableNodes s" for lbl related
    using assms by (rule reachableNodes.writeBack)
  have m: "mergeChildLabels pairs (specializedWriteBack i lbl related nodes) \<in> reachableNodes s"
    for pairs lbl related
    using w by (rule reachableNodes.labels)
  show ?thesis
    using assms w m
    by (auto simp: loadNode_def Let_def split: option.splits sum.splits)
qed


text \<open>
  C8: in every node map that a specialized traversal can reach, whatever the order of
  its write-backs and label merges, the keys differ from one another and every record
  is filed under its own IRI, so an IRI has at most one record; \<open>loadNode\<close> leads from
  such a map to such a map. A write-back of an IRI that is not loaded puts label and
  children on the one record of that IRI, and the label merged for a discovered child
  goes onto the record the IRI already has (which keeps its \<open>loaded\<close> flag and children)
  or onto a new one when it has none; either way the map then holds one record of it.
\<close>

theorem specialized_identity_memoization:
  assumes "nodes \<in> reachableNodes startNodeIri"
  shows "distinct (map fst nodes) \<and> list_all (\<lambda>kn. sn_iri (snd kn) = fst kn) nodes \<and>
     loadNode dataset predicateIri direction nodes i \<in> reachableNodes startNodeIri \<and>
     (\<forall>lbl related.
        (case map_of nodes i of Some existing \<Rightarrow> \<not> sn_loaded existing | None \<Rightarrow> True) \<longrightarrow>
        map_of (specializedWriteBack i lbl related nodes) i =
          Some \<lparr>sn_iri = i, sn_label = lbl, sn_loaded = True, sn_children = Some related\<rparr> \<and>
        length (filter (\<lambda>kn. fst kn = i) (specializedWriteBack i lbl related nodes)) = 1) \<and>
     (\<forall>c lbl.
        map_of (mergeChildLabels [(c, lbl)] nodes) c =
          Some (case map_of nodes c of
                  Some existing \<Rightarrow> existing\<lparr>sn_label := lbl\<rparr>
                | None \<Rightarrow> \<lparr>sn_iri = c, sn_label = lbl, sn_loaded = False, sn_children = None\<rparr>) \<and>
        length (filter (\<lambda>kn. fst kn = c) (mergeChildLabels [(c, lbl)] nodes)) = 1)"
proof -
  from assms have k: "keyedByIri nodes" by (rule reachable_keyedByIri)
  then have d: "distinct (map fst nodes)" by (simp add: keyedByIri_def)
  have w: "map_of (specializedWriteBack i lbl related nodes) i =
          Some \<lparr>sn_iri = i, sn_label = lbl, sn_loaded = True, sn_children = Some related\<rparr> \<and>
        length (filter (\<lambda>kn. fst kn = i) (specializedWriteBack i lbl related nodes)) = 1"
    if "case map_of nodes i of Some existing \<Rightarrow> \<not> sn_loaded existing | None \<Rightarrow> True"
    for lbl related
  proof (cases "map_of nodes i")
    case None
    with d show ?thesis
      by (simp add: specializedWriteBack_def update_conv' one_entry_after_update)
  next
    case (Some existing)
    with that have "\<not> sn_loaded existing" by simp
    with Some d show ?thesis
      by (simp add: specializedWriteBack_def update_conv' one_entry_after_update)
  qed
  have m: "map_of (mergeChildLabels [(c, lbl)] nodes) c =
          Some (case map_of nodes c of
                  Some existing \<Rightarrow> existing\<lparr>sn_label := lbl\<rparr>
                | None \<Rightarrow> \<lparr>sn_iri = c, sn_label = lbl, sn_loaded = False, sn_children = None\<rparr>) \<and>
        length (filter (\<lambda>kn. fst kn = c) (mergeChildLabels [(c, lbl)] nodes)) = 1"
    for c lbl
    using d by (cases "map_of nodes c") (simp_all add: update_conv' one_entry_after_update)
  from k d w m loadNode_reachable [OF assms] show ?thesis
    unfolding keyedByIri_def by blast
qed

theorem specialized_identity_memoization_witness:
  "startNodes ''ex:a'' \<in> reachableNodes ''ex:a'' \<and>
   specializedExample \<in> reachableNodes ''ex:a'' \<and>
   distinct (map fst specializedExample) \<and>
   map fst (loadNode exampleDataset ''ex:knows'' DirOut specializedExample ''ex:c'') =
     [''ex:a'', ''ex:b'', ''ex:c''] \<and>
   map_of (loadNode exampleDataset ''ex:knows'' DirOut specializedExample ''ex:c'') ''ex:a'' =
     Some \<lparr>sn_iri = ''ex:a'', sn_label = Some ''Alice'', sn_loaded = True,
           sn_children = Some [''ex:b'', ''ex:c'']\<rparr> \<and>
   loadNode exampleDataset ''ex:knows'' DirOut specializedExample ''ex:c'' \<in> reachableNodes ''ex:a'' \<and>
   map_of specializedExample ''ex:c'' =
     Some \<lparr>sn_iri = ''ex:c'', sn_label = None, sn_loaded = False, sn_children = None\<rparr> \<and>
   map_of (specializedWriteBack ''ex:c'' None [''ex:a''] specializedExample) ''ex:c'' =
     Some \<lparr>sn_iri = ''ex:c'', sn_label = None, sn_loaded = True, sn_children = Some [''ex:a'']\<rparr> \<and>
   length (filter (\<lambda>kn. fst kn = ''ex:c'')
             (specializedWriteBack ''ex:c'' None [''ex:a''] specializedExample)) = 1"
proof -
  have s: "startNodes ''ex:a'' \<in> reachableNodes ''ex:a''"
    by (rule reachableNodes.start)
  from specialized_identity_memoization [OF s, of exampleDataset "''ex:knows''" DirOut "''ex:a''"]
  have r: "specializedExample \<in> reachableNodes ''ex:a''"
    by (simp add: specializedExample_def)
  note t = specialized_identity_memoization [OF r, of exampleDataset "''ex:knows''" DirOut "''ex:c''"]
  have e: "map fst (loadNode exampleDataset ''ex:knows'' DirOut specializedExample ''ex:c'') =
     [''ex:a'', ''ex:b'', ''ex:c'']"
    "map_of (loadNode exampleDataset ''ex:knows'' DirOut specializedExample ''ex:c'') ''ex:a'' =
     Some \<lparr>sn_iri = ''ex:a'', sn_label = Some ''Alice'', sn_loaded = True,
           sn_children = Some [''ex:b'', ''ex:c'']\<rparr>"
    by code_simp+
  have c: "map_of specializedExample ''ex:c'' =
     Some \<lparr>sn_iri = ''ex:c'', sn_label = None, sn_loaded = False, sn_children = None\<rparr>"
    by (simp add: specializedExample_eq)
  then have u: "case map_of specializedExample ''ex:c'' of
                  Some existing \<Rightarrow> \<not> sn_loaded existing | None \<Rightarrow> True"
    by simp
  from t have "\<forall>lbl related.
        (case map_of specializedExample ''ex:c'' of
           Some existing \<Rightarrow> \<not> sn_loaded existing | None \<Rightarrow> True) \<longrightarrow>
        map_of (specializedWriteBack ''ex:c'' lbl related specializedExample) ''ex:c'' =
          Some \<lparr>sn_iri = ''ex:c'', sn_label = lbl, sn_loaded = True, sn_children = Some related\<rparr> \<and>
        length (filter (\<lambda>kn. fst kn = ''ex:c'')
                  (specializedWriteBack ''ex:c'' lbl related specializedExample)) = 1"
    by blast
  with u have w: "map_of (specializedWriteBack ''ex:c'' None [''ex:a''] specializedExample) ''ex:c'' =
          Some \<lparr>sn_iri = ''ex:c'', sn_label = None, sn_loaded = True, sn_children = Some [''ex:a'']\<rparr> \<and>
        length (filter (\<lambda>kn. fst kn = ''ex:c'')
                  (specializedWriteBack ''ex:c'' None [''ex:a''] specializedExample)) = 1"
    by blast
  from s r t e c w show ?thesis by simp
qed

end
